theory Spec2Isabelle
  imports Main
begin

section \<open>The latest-files announcement event of ENiGMA 1/2\<close>

text \<open>
  A shallow embedding of \<^verbatim>\<open>latest_files_announce_evt.js\<close>. The event is an
  \<^verbatim>\<open>async.waterfall\<close> of four stages: \<^verbatim>\<open>loadOptions\<close>, \<^verbatim>\<open>readTemplates\<close>,
  \<^verbatim>\<open>findNewFiles\<close> and \<^verbatim>\<open>buildMessages\<close>. Each stage is a HOL function; a stage that
  calls back with an error returns \<open>Inl\<close>, and the waterfall stops there.

  The collaborators that live outside this file of the program (the file system, hjson,
  moment, iconv, the stat log, the file base, AnsiPrep, stringFormat, persistMessage) are
  the fields of the record \<open>env\<close>: every theorem holds for each of their behaviours.
  \<^verbatim>\<open>async.map\<close> is modelled in list order, stopping at the first error: the library
  yields its results in list order and calls back with one error, and nothing proved here
  depends on the order in which its iterations complete or on the iterations that the
  library still runs after an error.
\<close>

subsection \<open>Data\<close>

text \<open>An error value: the two constructors of \<^verbatim>\<open>Errors\<close> the event uses, and the error
  object of a collaborator with its \<^verbatim>\<open>code\<close> and its \<^verbatim>\<open>message\<close>.\<close>

datatype error = MissingParam string | General string | Foreign string string

fun err_code :: "error \<Rightarrow> string" where
  "err_code (Foreign c m) = c"
| "err_code (MissingParam m) = []"
| "err_code (General m) = []"

fun err_message :: "error \<Rightarrow> string" where
  "err_message (Foreign c m) = m"
| "err_message (MissingParam m) = m"
| "err_message (General m) = m"

text \<open>The keys of \<^verbatim>\<open>options.hjson\<close>, each of them optional.\<close>

record raw_options =
  raw_areaTagsRegEx :: "string option"
  raw_maxFilesPerArea :: "int option"
  raw_postMaxSizeTarget :: "int option"
  raw_header :: "string option"
  raw_areaHeader :: "string option"
  raw_areaFooter :: "string option"
  raw_entry :: "string option"
  raw_footer :: "string option"
  raw_to :: "string option"
  raw_from :: "string option"
  raw_tsFormat :: "string option"
  raw_subjectFormat :: "string option"
  raw_templateEncoding :: "string option"

text \<open>The \<^verbatim>\<open>options\<close> object after the defaults; \<^verbatim>\<open>sinceTs\<close> is set by
  \<^verbatim>\<open>findNewFiles\<close> only.\<close>

record options =
  opt_areaTagsRegEx :: string
  opt_maxFilesPerArea :: int
  opt_postMaxSizeTarget :: int
  opt_header :: string
  opt_areaHeader :: string
  opt_areaFooter :: string
  opt_entry :: string
  opt_footer :: string
  opt_to :: string
  opt_from :: string
  opt_tsFormat :: string
  opt_nowTs :: string
  opt_subjectFormat :: string
  opt_templateEncoding :: string
  opt_sinceTs :: "string option"

datatype template_name = Header | AreaHeader | Entry | AreaFooter | Footer

record area =
  areaTag :: string
  area_name :: string
  area_desc :: string

record file_meta =
  byte_size :: int
  file_crc32 :: "string option"
  file_md5 :: "string option"
  file_sha1 :: "string option"
  upload_by_username :: "string option"

record FileEntry =
  entry_fileName :: string
  entry_desc :: "string option"
  entry_fileSha256 :: "string option"
  meta :: file_meta
  uploadTimestamp :: string
  hashTags :: "string list"

text \<open>What \<^verbatim>\<open>findNewFiles\<close> hands on for one area.\<close>

record area_files =
  areaInfo :: area
  files :: "FileEntry list"
  info_areaFileBytes :: int
  remainingFiles :: int

text \<open>The object the templates are formatted with. A key that is not yet assigned is
  \<open>None\<close>.\<close>

record formatObj =
  boardName :: string
  nowTs :: string
  sinceTs :: "string option"
  totalFileCount :: nat
  totalFileBytes :: int
  areaFileCount :: "nat option"
  areaRemainingFiles :: "int option"
  areaFileBytes :: "int option"
  areaName :: "string option"
  areaDesc :: "string option"
  fileName :: "string option"
  fileSize :: "int option"
  fileDesc :: "string option"
  fileSha256 :: "string option"
  fileCrc32 :: "string option"
  fileMd5 :: "string option"
  fileSha1 :: "string option"
  uploadBy :: "string option"
  fileUploadTs :: "string option"
  fileHashTags :: "string option"

record Message =
  msg_areaTag :: string
  toUserName :: string
  fromUserName :: string
  subject :: string
  message :: string
  explicit_encoding :: string

text \<open>The calls to the collaborators that the event makes, in the order it makes them.\<close>

datatype event =
    EvGetSystemStat string
  | EvSetSystemStat string string
  | EvGetAreas
  | EvFindFiles string string
  | EvLoad nat
  | EvStringFormat string formatObj
  | EvPersistMessage Message

text \<open>The state the event reads and writes: the system stats, the message base, and the
  log of calls.\<close>

record sys =
  stats :: "string \<rightharpoonup> string"
  message_base :: "Message list"
  trace :: "event list"

record env =
  dirname :: string
  Config_boardName :: string
  paths_isAbsolute :: "string \<Rightarrow> bool"
  paths_join :: "string \<Rightarrow> string \<Rightarrow> string"
  fs_readFile :: "string \<Rightarrow> error + string"
  hjson_parse :: "string \<Rightarrow> error + raw_options"
  moment_format :: "string option \<Rightarrow> string \<Rightarrow> string"
  iconv_decode :: "string \<Rightarrow> string \<Rightarrow> string"
  splitTextAtTerms :: "string \<Rightarrow> string list"
  getISOTimestampString :: string
  getSortedAvailableFileAreas :: "area list"
  regex_match :: "string \<Rightarrow> string \<Rightarrow> bool"
  findFiles :: "string \<Rightarrow> string \<Rightarrow> error + nat list"
  load :: "nat \<Rightarrow> error + FileEntry"
  AnsiPrep :: "string option \<Rightarrow> int \<Rightarrow> nat \<Rightarrow> error option \<times> string option"
  stringFormat :: "string \<Rightarrow> formatObj \<Rightarrow> string"
  persistMessage :: "Message \<Rightarrow> error option"

subsection \<open>JavaScript helpers\<close>

text \<open>A string value is truthy when it is present and not empty.\<close>

definition truthy :: "string option \<Rightarrow> bool" where
  "truthy v = (case v of None \<Rightarrow> False | Some s \<Rightarrow> s \<noteq> [])"

text \<open>\<^verbatim>\<open>v || d\<close> on strings and on numbers.\<close>

definition or_str :: "string option \<Rightarrow> string \<Rightarrow> string" where
  "or_str v d = (case v of None \<Rightarrow> d | Some s \<Rightarrow> if s = [] then d else s)"

definition or_num :: "int option \<Rightarrow> int \<Rightarrow> int" where
  "or_num v d = (case v of None \<Rightarrow> d | Some n \<Rightarrow> if n = 0 then d else n)"

text \<open>\<^verbatim>\<open>xs.slice(0, e)\<close>: a negative end counts from the end of the array.\<close>

definition slice0 :: "'a list \<Rightarrow> int \<Rightarrow> 'a list" where
  "slice0 xs e =
     (let n = int (length xs);
          k = (if e < 0 then max (n + e) 0 else min e n)
      in take (nat k) xs)"

text \<open>\<^verbatim>\<open>s.split(',')\<close>: the pieces between the commas; never an empty array.\<close>

fun split_acc :: "string \<Rightarrow> string \<Rightarrow> string list" where
  "split_acc cur [] = [cur]"
| "split_acc cur (c # cs) =
     (if c = CHR '','' then cur # split_acc [] cs else split_acc (cur @ [c]) cs)"

definition split_comma :: "string \<Rightarrow> string list" where
  "split_comma s = split_acc [] s"

text \<open>\<^verbatim>\<open>xs.join(sep)\<close>.\<close>

fun join_with :: "string \<Rightarrow> string list \<Rightarrow> string" where
  "join_with sep [] = []"
| "join_with sep [x] = x"
| "join_with sep (x # y # ys) = x @ sep @ join_with sep (y # ys)"

text \<open>\<^verbatim>\<open>s.replace(/\r?\n/g, '\r\n')\<close>.\<close>

fun crlf :: "string \<Rightarrow> string" where
  "crlf [] = []"
| "crlf [c] = (if c = CHR 0x0A then [CHR 0x0D, CHR 0x0A] else [c])"
| "crlf (c # d # cs) =
     (if c = CHR 0x0D \<and> d = CHR 0x0A then CHR 0x0D # CHR 0x0A # crlf cs
      else if c = CHR 0x0A then CHR 0x0D # CHR 0x0A # crlf (d # cs)
      else c # crlf (d # cs))"

text \<open>\<^verbatim>\<open>line.indexOf(pat)\<close>; \<open>None\<close> stands for -1.\<close>

fun indexOf :: "string \<Rightarrow> string \<Rightarrow> nat option" where
  "indexOf [] pat = (if pat = [] then Some 0 else None)"
| "indexOf (c # cs) pat =
     (if take (length pat) (c # cs) = pat then Some 0
      else map_option Suc (indexOf cs pat))"

text \<open>\<^verbatim>\<open>async.map\<close> over an iteratee without effects: the results in list order, or the
  first error.\<close>

fun async_map :: "('a \<Rightarrow> error + 'b) \<Rightarrow> 'a list \<Rightarrow> error + 'b list" where
  "async_map f [] = Inr []"
| "async_map f (x # xs) =
     (case f x of
        Inl err \<Rightarrow> Inl err
      | Inr y \<Rightarrow> (case async_map f xs of Inl err \<Rightarrow> Inl err | Inr ys \<Rightarrow> Inr (y # ys)))"

definition emit :: "event \<Rightarrow> sys \<Rightarrow> sys" where
  "emit e st = st\<lparr>trace := trace st @ [e]\<rparr>"

subsection \<open>Stage 1: loadOptions\<close>

definition STAT_KEY_LAST_TS :: string where
  "STAT_KEY_LAST_TS = ''latest_files_announce_evt__last_timestamp''"

definition TEMPLATE_NAMES :: "template_name list" where
  "TEMPLATE_NAMES = [Header, AreaHeader, Entry, AreaFooter, Footer]"

definition no_options :: raw_options where
  "no_options =
     \<lparr>raw_areaTagsRegEx = None, raw_maxFilesPerArea = None, raw_postMaxSizeTarget = None,
      raw_header = None, raw_areaHeader = None, raw_areaFooter = None, raw_entry = None,
      raw_footer = None, raw_to = None, raw_from = None, raw_tsFormat = None,
      raw_subjectFormat = None, raw_templateEncoding = None\<rparr>"

definition optionsPath :: "env \<Rightarrow> string list \<Rightarrow> string" where
  "optionsPath E args =
     (if length args > 1
      then (if paths_isAbsolute E (args ! 1) then args ! 1
            else paths_join E (dirname E) (args ! 1))
      else paths_join E (dirname E) ''options.hjson'')"

definition with_defaults :: "env \<Rightarrow> raw_options \<Rightarrow> options" where
  "with_defaults E raw =
     (let tsf = or_str (raw_tsFormat raw) ''ddd, MMMM Do, YYYY'' in
      \<lparr>opt_areaTagsRegEx = or_str (raw_areaTagsRegEx raw) ''^(?!uploads).*$'',
       opt_maxFilesPerArea = or_num (raw_maxFilesPerArea raw) 20,
       opt_postMaxSizeTarget = or_num (raw_postMaxSizeTarget raw) 512000,
       opt_header = or_str (raw_header raw) ''LFASTAR.ASC'',
       opt_areaHeader = or_str (raw_areaHeader raw) ''LFAASTAR.ASC'',
       opt_areaFooter = or_str (raw_areaFooter raw) ''LFAAEND.ASC'',
       opt_entry = or_str (raw_entry raw) ''LFAENTRY.ASC'',
       opt_footer = or_str (raw_footer raw) ''LFAEND.ASC'',
       opt_to = or_str (raw_to raw) ''All'',
       opt_from = or_str (raw_from raw) ''ENiGMA-Bot'',
       opt_tsFormat = tsf,
       opt_nowTs = moment_format E None tsf,
       opt_subjectFormat = or_str (raw_subjectFormat raw) ''New files on {boardName}'',
       opt_templateEncoding = or_str (raw_templateEncoding raw) ''utf8'',
       opt_sinceTs = None\<rparr>)"

definition loadOptions :: "env \<Rightarrow> string list \<Rightarrow> error + options" where
  "loadOptions E args =
     (case fs_readFile E (optionsPath E args) of
        Inl err \<Rightarrow>
          if err_code err \<noteq> ''ENOENT'' then Inl err
          else Inr (with_defaults E no_options)
      | Inr optionsData \<Rightarrow>
          if optionsData \<noteq> []
          then (case hjson_parse E optionsData of
                  Inl e \<Rightarrow> Inl e
                | Inr raw \<Rightarrow> Inr (with_defaults E raw))
          else Inr (with_defaults E no_options))"

subsection \<open>Stage 2: readTemplates\<close>

fun template_file :: "options \<Rightarrow> template_name \<Rightarrow> string" where
  "template_file opts Header = opt_header opts"
| "template_file opts AreaHeader = opt_areaHeader opts"
| "template_file opts Entry = opt_entry opts"
| "template_file opts AreaFooter = opt_areaFooter opts"
| "template_file opts Footer = opt_footer opts"

definition templatePath :: "env \<Rightarrow> options \<Rightarrow> template_name \<Rightarrow> string" where
  "templatePath E opts templateName =
     (let templatePath = template_file opts templateName
      in if paths_isAbsolute E templatePath then templatePath
         else paths_join E (dirname E) templatePath)"

text \<open>The column of the first \<^verbatim>\<open>{fileDesc}\<close> in the entry template, 0 when there is none.\<close>

fun find_descIndent :: "string list \<Rightarrow> nat" where
  "find_descIndent [] = 0"
| "find_descIndent (line # rest) =
     (case indexOf line ''{fileDesc}'' of
        Some pos \<Rightarrow> pos
      | None \<Rightarrow> find_descIndent rest)"

definition readTemplates :: "env \<Rightarrow> options \<Rightarrow> error + (string list \<times> nat)" where
  "readTemplates E opts =
     (case async_map (\<lambda>templateName. fs_readFile E (templatePath E opts templateName))
             TEMPLATE_NAMES of
        Inl err \<Rightarrow> Inl (General (err_message err))
      | Inr datas \<Rightarrow>
          (let templates = map (\<lambda>tmp. crlf (iconv_decode E tmp (opt_templateEncoding opts))) datas;
               descIndent = find_descIndent (splitTextAtTerms E (templates ! 2))
           in Inr (templates, descIndent)))"

subsection \<open>Stage 3: findNewFiles\<close>

text \<open>The callback of \<^verbatim>\<open>AnsiPrep\<close>: the error is not looked at, a truthy description
  replaces the file's own.\<close>

definition prepDesc :: "env \<Rightarrow> nat \<Rightarrow> FileEntry \<Rightarrow> FileEntry" where
  "prepDesc E descIndent fileInfo =
     (case AnsiPrep E (entry_desc fileInfo) (79 - int descIndent) descIndent of
        (err, desc) \<Rightarrow>
          if truthy desc then fileInfo\<lparr>entry_desc := desc\<rparr> else fileInfo)"

text \<open>The iteratee of the inner \<^verbatim>\<open>async.map\<close>, for one file id: what it passes
  to its callback. \<open>load_files\<close> below takes the same two steps for each id, and adds
  the size of the loaded file to \<^verbatim>\<open>areaFileBytes\<close> between them.\<close>

definition loadFileInfo :: "env \<Rightarrow> nat \<Rightarrow> nat \<Rightarrow> error + FileEntry" where
  "loadFileInfo E descIndent fileId =
     (case load E fileId of
        Inl err \<Rightarrow> Inl err
      | Inr fileInfo \<Rightarrow> Inr (prepDesc E descIndent fileInfo))"

text \<open>The inner \<^verbatim>\<open>async.map\<close> over the file ids of one area, with the running
  \<^verbatim>\<open>areaFileBytes\<close> that each loaded file adds its size to.\<close>

fun load_files ::
  "env \<Rightarrow> nat \<Rightarrow> nat list \<Rightarrow> int \<times> sys \<Rightarrow> (error + FileEntry list) \<times> int \<times> sys" where
  "load_files E descIndent [] (areaBytes, st) = (Inr [], areaBytes, st)"
| "load_files E descIndent (fileId # rest) (areaBytes, st) =
     (case load E fileId of
        Inl err \<Rightarrow> (Inl err, areaBytes, emit (EvLoad fileId) st)
      | Inr fileInfo \<Rightarrow>
          (case load_files E descIndent rest
                  (areaBytes + byte_size (meta fileInfo), emit (EvLoad fileId) st) of
             (Inl err, r) \<Rightarrow> (Inl err, r)
           | (Inr fileInfos, r) \<Rightarrow> (Inr (prepDesc E descIndent fileInfo # fileInfos), r)))"

text \<open>The iteratee of the outer \<^verbatim>\<open>async.map\<close>, for one area.\<close>

definition scan_area ::
  "env \<Rightarrow> options \<Rightarrow> nat \<Rightarrow> string \<Rightarrow> area \<Rightarrow> sys \<Rightarrow> (error + area_files) \<times> sys" where
  "scan_area E opts descIndent lastTimestamp area st =
     (let st1 = emit (EvFindFiles lastTimestamp (areaTag area)) st in
      case findFiles E lastTimestamp (areaTag area) of
        Inl err \<Rightarrow> (Inl err, st1)
      | Inr fileIds \<Rightarrow>
          (let remaining =
                 (if int (length fileIds) > opt_maxFilesPerArea opts
                  then int (length fileIds) - opt_maxFilesPerArea opts else 0)
           in case load_files E descIndent (slice0 fileIds (opt_maxFilesPerArea opts)) (0, st1) of
                (Inl err, areaBytes, st2) \<Rightarrow> (Inl err, st2)
              | (Inr fileInfos, areaBytes, st2) \<Rightarrow>
                  (Inr \<lparr>areaInfo = area, files = fileInfos,
                        info_areaFileBytes = areaBytes, remainingFiles = remaining\<rparr>, st2)))"

fun scan_areas ::
  "env \<Rightarrow> options \<Rightarrow> nat \<Rightarrow> string \<Rightarrow> area list \<Rightarrow> sys \<Rightarrow> (error + area_files list) \<times> sys" where
  "scan_areas E opts descIndent lastTimestamp [] st = (Inr [], st)"
| "scan_areas E opts descIndent lastTimestamp (area # rest) st =
     (case scan_area E opts descIndent lastTimestamp area st of
        (Inl err, st1) \<Rightarrow> (Inl err, st1)
      | (Inr r, st1) \<Rightarrow>
          (case scan_areas E opts descIndent lastTimestamp rest st1 of
             (Inl err, st2) \<Rightarrow> (Inl err, st2)
           | (Inr rs, st2) \<Rightarrow> (Inr (r # rs), st2)))"

definition not_set_error :: error where
  "not_set_error = General ''Last timestamp not set; Set to now for next event run time''"

definition matching_areas :: "env \<Rightarrow> options \<Rightarrow> area list" where
  "matching_areas E opts =
     filter (\<lambda>area. regex_match E (opt_areaTagsRegEx opts) (areaTag area))
       (getSortedAvailableFileAreas E)"

definition findNewFiles ::
  "env \<Rightarrow> options \<Rightarrow> nat \<Rightarrow> sys \<Rightarrow> (error + (options \<times> area_files list)) \<times> sys" where
  "findNewFiles E opts descIndent st =
     (let lastTimestamp = stats st STAT_KEY_LAST_TS;
          st1 = emit (EvGetSystemStat STAT_KEY_LAST_TS) st;
          st2 = (emit (EvSetSystemStat STAT_KEY_LAST_TS (getISOTimestampString E)) st1)
                  \<lparr>stats := (stats st1)(STAT_KEY_LAST_TS \<mapsto> getISOTimestampString E)\<rparr>
      in case lastTimestamp of
           None \<Rightarrow> (Inl not_set_error, st2)
         | Some ts \<Rightarrow>
             if ts = [] then (Inl not_set_error, st2)
             else
               (let opts' = opts\<lparr>opt_sinceTs := Some (moment_format E (Some ts) (opt_tsFormat opts))\<rparr>;
                    allAreas = matching_areas E opts
                in case scan_areas E opts descIndent ts allAreas (emit EvGetAreas st2) of
                     (Inl err, st3) \<Rightarrow> (Inl err, st3)
                   | (Inr allAreasFiles, st3) \<Rightarrow> (Inr (opts', allAreasFiles), st3)))"

subsection \<open>Stage 4: buildMessages\<close>

definition initial_formatObj :: "env \<Rightarrow> options \<Rightarrow> formatObj" where
  "initial_formatObj E opts =
     \<lparr>boardName = Config_boardName E, nowTs = opt_nowTs opts, sinceTs = opt_sinceTs opts,
      totalFileCount = 0, totalFileBytes = 0,
      areaFileCount = None, areaRemainingFiles = None, areaFileBytes = None,
      areaName = None, areaDesc = None, fileName = None, fileSize = None, fileDesc = None,
      fileSha256 = None, fileCrc32 = None, fileMd5 = None, fileSha1 = None, uploadBy = None,
      fileUploadTs = None, fileHashTags = None\<rparr>"

definition set_area_fields :: "formatObj \<Rightarrow> area_files \<Rightarrow> formatObj" where
  "set_area_fields fo a =
     fo\<lparr>areaFileCount := Some (length (files a)),
        areaRemainingFiles := Some (remainingFiles a),
        areaFileBytes := Some (info_areaFileBytes a),
        totalFileCount := totalFileCount fo + length (files a),
        totalFileBytes := totalFileBytes fo + info_areaFileBytes a,
        areaName := Some (area_name (areaInfo a)),
        areaDesc := Some (area_desc (areaInfo a))\<rparr>"

definition set_file_fields :: "formatObj \<Rightarrow> FileEntry \<Rightarrow> formatObj" where
  "set_file_fields fo fileInfo =
     fo\<lparr>fileName := Some (entry_fileName fileInfo),
        fileSize := Some (byte_size (meta fileInfo)),
        fileDesc := Some (or_str (entry_desc fileInfo) []),
        fileSha256 := entry_fileSha256 fileInfo,
        fileCrc32 := file_crc32 (meta fileInfo),
        fileMd5 := file_md5 (meta fileInfo),
        fileSha1 := file_sha1 (meta fileInfo),
        uploadBy := Some (or_str (upload_by_username (meta fileInfo)) ''N/A''),
        fileUploadTs := Some (uploadTimestamp fileInfo),
        fileHashTags := Some (join_with '', '' (hashTags fileInfo))\<rparr>"

text \<open>\<^verbatim>\<open>msgBody += stringFormat(template, formatObj)\<close>.\<close>

definition append_format ::
  "env \<Rightarrow> string \<Rightarrow> formatObj \<times> string \<times> sys \<Rightarrow> formatObj \<times> string \<times> sys" where
  "append_format E tmpl r =
     (case r of (fo, msgBody, st) \<Rightarrow>
        (fo, msgBody @ stringFormat E tmpl fo, emit (EvStringFormat tmpl fo) st))"

fun forEach_file ::
  "env \<Rightarrow> string \<Rightarrow> FileEntry list \<Rightarrow> formatObj \<times> string \<times> sys \<Rightarrow> formatObj \<times> string \<times> sys" where
  "forEach_file E tmpl [] r = r"
| "forEach_file E tmpl (fileInfo # rest) (fo, msgBody, st) =
     forEach_file E tmpl rest (append_format E tmpl (set_file_fields fo fileInfo, msgBody, st))"

fun forEach_area ::
  "env \<Rightarrow> string list \<Rightarrow> area_files list \<Rightarrow> formatObj \<times> string \<times> sys
     \<Rightarrow> formatObj \<times> string \<times> sys" where
  "forEach_area E templates [] r = r"
| "forEach_area E templates (a # rest) (fo, msgBody, st) =
     (if files a = [] then forEach_area E templates rest (fo, msgBody, st)
      else forEach_area E templates rest
             (append_format E (templates ! 3)
               (forEach_file E (templates ! 2) (files a)
                 (append_format E (templates ! 1) (set_area_fields fo a, msgBody, st)))))"

text \<open>The report: header, the areas, footer.\<close>

definition render_report ::
  "env \<Rightarrow> options \<Rightarrow> string list \<Rightarrow> area_files list \<Rightarrow> sys \<Rightarrow> formatObj \<times> string \<times> sys" where
  "render_report E opts templates allFileInfos st =
     append_format E (templates ! 4)
       (forEach_area E templates allFileInfos
         (append_format E (templates ! 0) (initial_formatObj E opts, [], st)))"

definition new_Message :: "env \<Rightarrow> options \<Rightarrow> formatObj \<Rightarrow> string \<Rightarrow> string \<Rightarrow> Message" where
  "new_Message E opts fo msgBody tag =
     \<lparr>msg_areaTag = tag, toUserName = opt_to opts, fromUserName = opt_from opts,
      subject = stringFormat E (opt_subjectFormat opts) fo, message = msgBody,
      explicit_encoding = ''cp437''\<rparr>"

text \<open>\<^verbatim>\<open>async.eachSeries\<close> over the area tags: one after the other, stopping at the first
  error of \<^verbatim>\<open>persistMessage\<close>.\<close>

fun eachSeries_persist ::
  "env \<Rightarrow> options \<Rightarrow> formatObj \<Rightarrow> string \<Rightarrow> string list \<Rightarrow> sys \<Rightarrow> error option \<times> sys" where
  "eachSeries_persist E opts fo msgBody [] st = (None, st)"
| "eachSeries_persist E opts fo msgBody (tag # rest) st =
     (let msg = new_Message E opts fo msgBody tag;
          st1 = emit (EvPersistMessage msg) (emit (EvStringFormat (opt_subjectFormat opts) fo) st)
      in case persistMessage E msg of
           Some err \<Rightarrow> (Some err, st1)
         | None \<Rightarrow>
             eachSeries_persist E opts fo msgBody rest
               (st1\<lparr>message_base := message_base st1 @ [msg]\<rparr>))"

definition buildMessages ::
  "env \<Rightarrow> string list \<Rightarrow> options \<Rightarrow> string list \<Rightarrow> area_files list \<Rightarrow> sys
     \<Rightarrow> error option \<times> sys" where
  "buildMessages E args opts templates allFileInfos st =
     (case render_report E opts templates allFileInfos st of
        (fo, msgBody, st1) \<Rightarrow>
          if totalFileCount fo > 0
          then eachSeries_persist E opts fo msgBody (split_comma (args ! 0)) st1
          else (None, st1))"

subsection \<open>The event\<close>

definition latestFilesAnnounceEvent :: "env \<Rightarrow> string list \<Rightarrow> sys \<Rightarrow> error option \<times> sys" where
  "latestFilesAnnounceEvent E args st =
     (if length args < 1
      then (Some (MissingParam ''At least [areaTag] required in args''), st)
      else
        (case loadOptions E args of
           Inl err \<Rightarrow> (Some err, st)
         | Inr opts \<Rightarrow>
             (case readTemplates E opts of
                Inl err \<Rightarrow> (Some err, st)
              | Inr (templates, descIndent) \<Rightarrow>
                  (case findNewFiles E opts descIndent st of
                     (Inl err, st1) \<Rightarrow> (Some err, st1)
                   | (Inr (opts', allAreasFiles), st1) \<Rightarrow>
                       buildMessages E args opts' templates allAreasFiles st1))))"

subsection \<open>Kinds of calls\<close>

fun is_stat_step :: "event \<Rightarrow> bool" where
  "is_stat_step (EvGetSystemStat k) = True"
| "is_stat_step (EvSetSystemStat k v) = True"
| "is_stat_step e = False"

fun is_scan_step :: "event \<Rightarrow> bool" where
  "is_scan_step EvGetAreas = True"
| "is_scan_step (EvFindFiles ts tag) = True"
| "is_scan_step (EvLoad fileId) = True"
| "is_scan_step e = False"

fun is_format_step :: "event \<Rightarrow> bool" where
  "is_format_step (EvStringFormat tmpl fo) = True"
| "is_format_step e = False"

fun is_persist_step :: "event \<Rightarrow> bool" where
  "is_persist_step (EvPersistMessage msg) = True"
| "is_persist_step e = False"

text \<open>The byte sizes of a list of file entries, summed.\<close>

definition bytes_of :: "FileEntry list \<Rightarrow> int" where
  "bytes_of fs = sum_list (map (\<lambda>f. byte_size (meta f)) fs)"

text \<open>The number of \<^verbatim>\<open>stringFormat\<close> calls that the section of one area makes: none
  for an area without files, else area header, entries and area footer.\<close>

definition section_calls :: "area_files \<Rightarrow> nat" where
  "section_calls a = (if files a = [] then 0 else length (files a) + 2)"

text \<open>The call that formats the entry template for file \<open>f\<close> while the totals are
  \<open>c\<close> files and \<open>y\<close> bytes.\<close>

fun entry_call :: "string \<Rightarrow> nat \<Rightarrow> int \<Rightarrow> FileEntry \<Rightarrow> event \<Rightarrow> bool" where
  "entry_call tmpl c y f (EvStringFormat tmpl' fo) =
     (tmpl' = tmpl \<and> totalFileCount fo = c \<and> totalFileBytes fo = y \<and>
      fileSize fo = Some (byte_size (meta f)) \<and> fileName fo = Some (entry_fileName f))"
| "entry_call tmpl c y f e = False"

text \<open>A call that formats the template \<open>tmpl\<close> while the totals are \<open>c\<close> files and
  \<open>y\<close> bytes.\<close>

fun totals_call :: "string \<Rightarrow> nat \<Rightarrow> int \<Rightarrow> event \<Rightarrow> bool" where
  "totals_call tmpl c y (EvStringFormat tmpl' fo) =
     (tmpl' = tmpl \<and> totalFileCount fo = c \<and> totalFileBytes fo = y)"
| "totals_call tmpl c y e = False"

text \<open>What a call adds to the body of the report: the text \<^verbatim>\<open>stringFormat\<close> returns.\<close>

fun format_output :: "env \<Rightarrow> event \<Rightarrow> string" where
  "format_output E (EvStringFormat tmpl fo) = stringFormat E tmpl fo"
| "format_output E e = []"

text \<open>The template, the file size and the two totals that a call of \<^verbatim>\<open>stringFormat\<close>
  is made with.\<close>

fun call_totals :: "event \<Rightarrow> (string \<times> int option \<times> nat \<times> int) option" where
  "call_totals (EvStringFormat tmpl fo) =
     Some (tmpl, fileSize fo, totalFileCount fo, totalFileBytes fo)"
| "call_totals e = None"

text \<open>The calls of the delivery of the messages \<open>mk tag\<close> to the tags \<open>tags\<close>: for each
  tag, the subject is formatted and the message is handed to \<^verbatim>\<open>persistMessage\<close>.\<close>

definition posts :: "string \<Rightarrow> formatObj \<Rightarrow> (string \<Rightarrow> Message) \<Rightarrow> string list \<Rightarrow> event list" where
  "posts subjectFormat fo mk tags =
     concat (map (\<lambda>t. [EvStringFormat subjectFormat fo, EvPersistMessage (mk t)]) tags)"

subsection \<open>A small board, for evaluating the event\<close>

definition demo_file :: "nat \<Rightarrow> FileEntry" where
  "demo_file n =
     \<lparr>entry_fileName = ''F.ZIP'', entry_desc = Some ''d'', entry_fileSha256 = None,
      meta = \<lparr>byte_size = int n * 100, file_crc32 = None, file_md5 = None, file_sha1 = None,
              upload_by_username = None\<rparr>,
      uploadTimestamp = ''t'', hashTags = [''a'', ''b'']\<rparr>"

definition demo_env :: env where
  "demo_env =
     \<lparr>dirname = ''m'', Config_boardName = ''B'',
      paths_isAbsolute = (\<lambda>p. False), paths_join = (\<lambda>a b. b),
      fs_readFile = (\<lambda>p. if p = ''options.hjson'' then Inl (Foreign ''ENOENT'' ''none'') else Inr p),
      hjson_parse = (\<lambda>s. Inr no_options),
      moment_format = (\<lambda>ts f. case ts of None \<Rightarrow> ''now'' | Some t \<Rightarrow> t),
      iconv_decode = (\<lambda>b e. b), splitTextAtTerms = (\<lambda>s. [s]),
      getISOTimestampString = ''T2'',
      getSortedAvailableFileAreas =
        [\<lparr>areaTag = ''x'', area_name = ''X'', area_desc = ''dx''\<rparr>,
         \<lparr>areaTag = ''y'', area_name = ''Y'', area_desc = ''dy''\<rparr>],
      regex_match = (\<lambda>r t. True),
      findFiles = (\<lambda>ts tag. if tag = ''x'' then Inr [1, 2, 3] else Inr []),
      load = (\<lambda>i. Inr (demo_file i)),
      AnsiPrep = (\<lambda>d c i. (None, d)),
      stringFormat = (\<lambda>t fo. t),
      persistMessage = (\<lambda>m. None)\<rparr>"

definition demo_sys :: sys where
  "demo_sys = \<lparr>stats = [STAT_KEY_LAST_TS \<mapsto> ''T1''], message_base = [], trace = []\<rparr>"

definition demo_options :: options where
  "demo_options = with_defaults demo_env no_options"

definition demo_templates :: "string list" where
  "demo_templates = [''LFASTAR.ASC'', ''LFAASTAR.ASC'', ''LFAENTRY.ASC'', ''LFAAEND.ASC'', ''LFAEND.ASC'']"

definition demo_area_x :: area where
  "demo_area_x = \<lparr>areaTag = ''x'', area_name = ''X'', area_desc = ''dx''\<rparr>"

definition demo_area_y :: area where
  "demo_area_y = \<lparr>areaTag = ''y'', area_name = ''Y'', area_desc = ''dy''\<rparr>"

definition demo_report_x :: area_files where
  "demo_report_x = \<lparr>areaInfo = demo_area_x, files = [demo_file 1, demo_file 2, demo_file 3],
     info_areaFileBytes = 600, remainingFiles = 0\<rparr>"

definition demo_report_y :: area_files where
  "demo_report_y = \<lparr>areaInfo = demo_area_y, files = [], info_areaFileBytes = 0,
     remainingFiles = 0\<rparr>"

definition capped_options :: options where
  "capped_options = demo_options\<lparr>opt_maxFilesPerArea := 2\<rparr>"

definition capped_report_x :: area_files where
  "capped_report_x = \<lparr>areaInfo = demo_area_x, files = [demo_file 1, demo_file 2],
     info_areaFileBytes = 300, remainingFiles = 1\<rparr>"

definition since_options :: options where
  "since_options = demo_options\<lparr>opt_sinceTs := Some ''T1''\<rparr>"

definition scanned_sys :: sys where
  "scanned_sys =
     \<lparr>stats = [STAT_KEY_LAST_TS \<mapsto> ''T2''], message_base = [],
      trace = [EvGetSystemStat STAT_KEY_LAST_TS, EvSetSystemStat STAT_KEY_LAST_TS ''T2'',
               EvGetAreas, EvFindFiles ''T1'' ''x'', EvLoad 1, EvLoad 2, EvLoad 3,
               EvFindFiles ''T1'' ''y'']\<rparr>"

definition negative_cap_options :: options where
  "negative_cap_options = demo_options\<lparr>opt_maxFilesPerArea := - 1\<rparr>"

definition negative_cap_report :: area_files where
  "negative_cap_report = \<lparr>areaInfo = demo_area_x, files = [demo_file 1, demo_file 2],
     info_areaFileBytes = 300, remainingFiles = 4\<rparr>"

definition zero_configured_options :: options where
  "zero_configured_options = with_defaults demo_env (no_options\<lparr>raw_maxFilesPerArea := Some 0\<rparr>)"

definition quiet_env :: env where
  "quiet_env = demo_env\<lparr>findFiles := (\<lambda>ts tag. Inr [])\<rparr>"

definition unreadable_env :: env where
  "unreadable_env = demo_env\<lparr>fs_readFile := (\<lambda>p. Inl (Foreign ''EACCES'' ''denied''))\<rparr>"

definition prep_fails_env :: env where
  "prep_fails_env = demo_env\<lparr>AnsiPrep := (\<lambda>d c i. (Some (General ''reflow''), None))\<rparr>"

definition b_fails_env :: env where
  "b_fails_env =
     demo_env\<lparr>persistMessage := (\<lambda>m. if msg_areaTag m = ''b'' then Some (General ''no area'') else None)\<rparr>"

section \<open>Properties\<close>

subsection \<open>The calls and the state of the scan\<close>

lemma emit_stats [simp]: "stats (emit e st) = stats st"
  by (simp add: emit_def)

lemma emit_message_base [simp]: "message_base (emit e st) = message_base st"
  by (simp add: emit_def)

lemma emit_trace [simp]: "trace (emit e st) = trace st @ [e]"
  by (simp add: emit_def)

lemma prepDesc_meta [simp]: "meta (prepDesc E d f) = meta f"
  by (simp add: prepDesc_def split: prod.splits)

lemma load_files_Inr:
  "load_files E d ids (b, st) = (Inr fs, b', st') \<Longrightarrow>
     map (loadFileInfo E d) ids = map Inr fs \<and>
     b' = b + bytes_of fs \<and>
     st' = st\<lparr>trace := trace st @ map EvLoad ids\<rparr>"
proof (induction ids arbitrary: b st fs b' st')
  case Nil
  then show ?case by (simp add: bytes_of_def)
next
  case (Cons i ids)
  from Cons.prems obtain f fs2 where f: "load E i = Inr f"
    and rec: "load_files E d ids (b + byte_size (meta f), emit (EvLoad i) st) = (Inr fs2, b', st')"
    and fs: "fs = prepDesc E d f # fs2"
    by (auto split: sum.splits prod.splits)
  from Cons.IH[OF rec] f fs show ?case
    by (simp add: bytes_of_def loadFileInfo_def emit_def)
qed

lemma load_files_frame:
  "load_files E d ids (b, st) = (r, b', st') \<Longrightarrow>
     stats st' = stats st \<and> message_base st' = message_base st \<and>
     (\<exists>evs. trace st' = trace st @ evs \<and> list_all is_scan_step evs)"
proof (induction ids arbitrary: b st r b' st')
  case Nil
  then show ?case by simp
next
  case (Cons i ids)
  show ?case
  proof (cases "load E i")
    case (Inl err)
    with Cons.prems show ?thesis by auto
  next
    case (Inr f)
    obtain r2 b2 st2 where rec:
      "load_files E d ids (b + byte_size (meta f), emit (EvLoad i) st) = (r2, b2, st2)"
      by (metis prod_cases3)
    from Cons.IH[OF rec] obtain evs where
      f: "stats st2 = stats st" "message_base st2 = message_base st"
         "trace st2 = trace st @ EvLoad i # evs" "list_all is_scan_step evs"
      by auto
    from Cons.prems Inr rec have "st' = st2"
      by (auto split: sum.splits)
    with f show ?thesis by auto
  qed
qed

lemma scan_area_frame:
  "scan_area E opts d ts area st = (r, st') \<Longrightarrow>
     stats st' = stats st \<and> message_base st' = message_base st \<and>
     (\<exists>evs. trace st' = trace st @ evs \<and> list_all is_scan_step evs)"
proof -
  assume a: "scan_area E opts d ts area st = (r, st')"
  show ?thesis
  proof (cases "findFiles E ts (areaTag area)")
    case (Inl err)
    with a show ?thesis by (auto simp: scan_area_def)
  next
    case (Inr ids)
    obtain r2 b2 st2 where rec:
      "load_files E d (slice0 ids (opt_maxFilesPerArea opts))
         (0, emit (EvFindFiles ts (areaTag area)) st) = (r2, b2, st2)"
      by (metis prod_cases3)
    from load_files_frame[OF rec] obtain evs where
      f: "stats st2 = stats st" "message_base st2 = message_base st"
         "trace st2 = trace st @ EvFindFiles ts (areaTag area) # evs" "list_all is_scan_step evs"
      by auto
    from a Inr rec have "st' = st2"
      by (auto simp: scan_area_def Let_def split: sum.splits)
    with f show ?thesis by auto
  qed
qed

lemma scan_area_Inr:
  assumes "scan_area E opts d ts area st = (Inr a, st')"
  shows "\<exists>ids. findFiles E ts (areaTag area) = Inr ids \<and>
           areaInfo a = area \<and>
           map (loadFileInfo E d) (slice0 ids (opt_maxFilesPerArea opts)) = map Inr (files a) \<and>
           info_areaFileBytes a = bytes_of (files a) \<and>
           remainingFiles a =
             (if int (length ids) > opt_maxFilesPerArea opts
              then int (length ids) - opt_maxFilesPerArea opts else 0)"
proof (cases "findFiles E ts (areaTag area)")
  case (Inl err)
  with assms show ?thesis by (simp add: scan_area_def)
next
  case (Inr ids)
  obtain r2 b2 st2 where rec:
    "load_files E d (slice0 ids (opt_maxFilesPerArea opts))
       (0, emit (EvFindFiles ts (areaTag area)) st) = (r2, b2, st2)"
    by (metis prod_cases3)
  from assms Inr rec obtain fs where r2: "r2 = Inr fs"
    and a: "a = \<lparr>areaInfo = area, files = fs, info_areaFileBytes = b2,
                 remainingFiles = (if int (length ids) > opt_maxFilesPerArea opts
              then int (length ids) - opt_maxFilesPerArea opts else 0)\<rparr>" and st': "st' = st2"
    by (auto simp: scan_area_def Let_def split: sum.splits)
  from load_files_Inr[OF rec[unfolded r2]] a st' Inr show ?thesis
    by (simp add: emit_def)
qed

lemma scan_areas_frame:
  "scan_areas E opts d ts areas st = (r, st') \<Longrightarrow>
     stats st' = stats st \<and> message_base st' = message_base st \<and>
     (\<exists>evs. trace st' = trace st @ evs \<and> list_all is_scan_step evs)"
proof (induction areas arbitrary: st r st')
  case Nil
  then show ?case by simp
next
  case (Cons area rest)
  obtain r1 st1 where s1: "scan_area E opts d ts area st = (r1, st1)"
    by fastforce
  from scan_area_frame[OF s1] obtain evs1 where
    f1: "stats st1 = stats st" "message_base st1 = message_base st"
        "trace st1 = trace st @ evs1" "list_all is_scan_step evs1"
    by auto
  show ?case
  proof (cases r1)
    case (Inl err)
    with Cons.prems s1 have "st' = st1" by simp
    with f1 show ?thesis by auto
  next
    case (Inr a)
    obtain r2 st2 where s2: "scan_areas E opts d ts rest st1 = (r2, st2)"
      by fastforce
    from Cons.IH[OF s2] obtain evs2 where
      f2: "stats st2 = stats st1" "message_base st2 = message_base st1"
          "trace st2 = trace st1 @ evs2" "list_all is_scan_step evs2"
      by auto
    from Cons.prems s1 s2 Inr have "st' = st2"
      by (auto split: sum.splits)
    with f1 f2 show ?thesis by auto
  qed
qed

lemma scan_areas_Inr:
  "scan_areas E opts d ts areas st = (Inr afs, st') \<Longrightarrow>
     list_all2 (\<lambda>area a. \<exists>s s'. scan_area E opts d ts area s = (Inr a, s')) areas afs"
proof (induction areas arbitrary: st afs st')
  case Nil
  then show ?case by simp
next
  case (Cons area rest)
  from Cons.prems obtain a st1 rs where
    s1: "scan_area E opts d ts area st = (Inr a, st1)" and
    s2: "scan_areas E opts d ts rest st1 = (Inr rs, st')" and
    afs: "afs = a # rs"
    by (auto split: sum.splits prod.splits)
  from Cons.IH[OF s2] s1 afs show ?case by auto
qed

lemma slice0_Nil [simp]: "slice0 [] e = []"
  by (simp add: slice0_def)

lemma scan_areas_nothing_new:
  "\<forall>area \<in> set areas. findFiles E ts (areaTag area) = Inr [] \<Longrightarrow>
     \<exists>afs. scan_areas E opts d ts areas st =
              (Inr afs, st\<lparr>trace := trace st @ map (\<lambda>area. EvFindFiles ts (areaTag area)) areas\<rparr>) \<and>
           list_all (\<lambda>a. files a = []) afs"
proof (induction areas arbitrary: st)
  case Nil
  then show ?case by simp
next
  case (Cons area rest)
  then have ff: "findFiles E ts (areaTag area) = Inr []"
    and rest: "\<forall>area \<in> set rest. findFiles E ts (areaTag area) = Inr []"
    by simp_all
  from Cons.IH[OF rest, of "emit (EvFindFiles ts (areaTag area)) st"]
  obtain afs where
    "scan_areas E opts d ts rest (emit (EvFindFiles ts (areaTag area)) st) =
       (Inr afs, (emit (EvFindFiles ts (areaTag area)) st)
          \<lparr>trace := trace (emit (EvFindFiles ts (areaTag area)) st) @
             map (\<lambda>area. EvFindFiles ts (areaTag area)) rest\<rparr>)"
    and "list_all (\<lambda>a. files a = []) afs"
    by blast
  with ff show ?case
    by (simp add: scan_area_def emit_def)
qed

subsection \<open>The two outcomes of reading the checkpoint\<close>

lemma findNewFiles_not_set:
  "\<not> truthy (stats st STAT_KEY_LAST_TS) \<Longrightarrow>
     findNewFiles E opts d st =
       (Inl not_set_error,
        st\<lparr>stats := (stats st)(STAT_KEY_LAST_TS \<mapsto> getISOTimestampString E),
           trace := trace st @ [EvGetSystemStat STAT_KEY_LAST_TS,
                                EvSetSystemStat STAT_KEY_LAST_TS (getISOTimestampString E)]\<rparr>)"
  by (auto simp: findNewFiles_def truthy_def emit_def Let_def split: option.splits)

lemma findNewFiles_set:
  "stats st STAT_KEY_LAST_TS = Some ts \<Longrightarrow> ts \<noteq> [] \<Longrightarrow>
     findNewFiles E opts d st =
       (case scan_areas E opts d ts (matching_areas E opts)
               (st\<lparr>stats := (stats st)(STAT_KEY_LAST_TS \<mapsto> getISOTimestampString E),
                   trace := trace st @ [EvGetSystemStat STAT_KEY_LAST_TS,
                                EvSetSystemStat STAT_KEY_LAST_TS (getISOTimestampString E),
                                EvGetAreas]\<rparr>) of
          (Inl err, st3) \<Rightarrow> (Inl err, st3)
        | (Inr afs, st3) \<Rightarrow>
            (Inr (opts\<lparr>opt_sinceTs := Some (moment_format E (Some ts) (opt_tsFormat opts))\<rparr>, afs),
             st3))"
  by (simp add: findNewFiles_def emit_def Let_def)

subsection \<open>The loops of the report\<close>

lemma append_format_eq:
  "append_format E t (fo, b, st) = (fo, b @ stringFormat E t fo, emit (EvStringFormat t fo) st)"
  by (simp add: append_format_def)

lemma forEach_file_append:
  "forEach_file E t (xs @ ys) r = forEach_file E t ys (forEach_file E t xs r)"
proof (induction xs arbitrary: r)
  case Nil
  then show ?case by simp
next
  case (Cons x xs)
  obtain fo b st where r: "r = (fo, b, st)" by (rule prod_cases3)
  show ?case unfolding r by (simp add: Cons.IH)
qed

lemma forEach_area_append:
  "forEach_area E T (xs @ ys) r = forEach_area E T ys (forEach_area E T xs r)"
proof (induction xs arbitrary: r)
  case Nil
  then show ?case by simp
next
  case (Cons x xs)
  obtain fo b st where r: "r = (fo, b, st)" by (rule prod_cases3)
  show ?case unfolding r by (simp add: Cons.IH)
qed

lemma set_file_fields_totals [simp]:
  "totalFileCount (set_file_fields fo f) = totalFileCount fo"
  "totalFileBytes (set_file_fields fo f) = totalFileBytes fo"
  by (simp_all add: set_file_fields_def)

lemma set_area_fields_totals [simp]:
  "totalFileCount (set_area_fields fo a) = totalFileCount fo + length (files a)"
  "totalFileBytes (set_area_fields fo a) = totalFileBytes fo + info_areaFileBytes a"
  by (simp_all add: set_area_fields_def)

lemma forEach_file_frame:
  "forEach_file E t fs (fo, b, st) = (fo', b', st') \<Longrightarrow>
     totalFileCount fo' = totalFileCount fo \<and> totalFileBytes fo' = totalFileBytes fo \<and>
     stats st' = stats st \<and> message_base st' = message_base st \<and>
     (\<exists>evs. trace st' = trace st @ evs \<and> length evs = length fs \<and> list_all is_format_step evs)"
proof (induction fs arbitrary: fo b st)
  case Nil
  then show ?case by simp
next
  case (Cons f fs)
  from Cons.prems have
    "forEach_file E t fs (set_file_fields fo f, b @ stringFormat E t (set_file_fields fo f),
       emit (EvStringFormat t (set_file_fields fo f)) st) = (fo', b', st')"
    by (simp add: append_format_eq)
  from Cons.IH[OF this] show ?case by auto
qed

subsection \<open>Failures before the scan\<close>

lemma async_map_Inl:
  "x \<in> set xs \<Longrightarrow> f x = Inl e \<Longrightarrow> \<exists>e'. async_map f xs = Inl e'"
  by (induction xs) (auto split: sum.splits)

lemma loadOptions_read_error:
  "fs_readFile E (optionsPath E args) = Inl err \<Longrightarrow> err_code err \<noteq> ''ENOENT'' \<Longrightarrow>
     loadOptions E args = Inl err"
  by (simp add: loadOptions_def)

lemma loadOptions_parse_error:
  "fs_readFile E (optionsPath E args) = Inr d \<Longrightarrow> d \<noteq> [] \<Longrightarrow> hjson_parse E d = Inl err \<Longrightarrow>
     loadOptions E args = Inl err"
  by (simp add: loadOptions_def)

lemma readTemplates_read_error:
  "name \<in> set TEMPLATE_NAMES \<Longrightarrow> fs_readFile E (templatePath E opts name) = Inl err \<Longrightarrow>
     \<exists>e. readTemplates E opts = Inl e"
  using async_map_Inl[of name TEMPLATE_NAMES "\<lambda>n. fs_readFile E (templatePath E opts n)" err]
  by (auto simp: readTemplates_def)

lemma event_missing_param:
  "length args < 1 \<Longrightarrow> \<exists>e. latestFilesAnnounceEvent E args st = (Some e, st)"
  by (simp add: latestFilesAnnounceEvent_def)

lemma event_options_error:
  "loadOptions E args = Inl err \<Longrightarrow> \<exists>e. latestFilesAnnounceEvent E args st = (Some e, st)"
  by (simp add: latestFilesAnnounceEvent_def)

lemma event_templates_error:
  "loadOptions E args = Inr opts \<Longrightarrow> readTemplates E opts = Inl err \<Longrightarrow>
     \<exists>e. latestFilesAnnounceEvent E args st = (Some e, st)"
  by (simp add: latestFilesAnnounceEvent_def)

lemma event_reaches_scan:
  "1 \<le> length args \<Longrightarrow> loadOptions E args = Inr opts \<Longrightarrow>
   readTemplates E opts = Inr (templates, descIndent) \<Longrightarrow>
     latestFilesAnnounceEvent E args st =
       (case findNewFiles E opts descIndent st of
          (Inl err, st1) \<Rightarrow> (Some err, st1)
        | (Inr (opts', allAreasFiles), st1) \<Rightarrow>
            buildMessages E args opts' templates allAreasFiles st1)"
proof -
  assume "1 \<le> length args"
  then have "args \<noteq> []" by auto
  moreover assume "loadOptions E args = Inr opts"
    "readTemplates E opts = Inr (templates, descIndent)"
  ultimately show ?thesis
    by (simp add: latestFilesAnnounceEvent_def)
qed

text \<open>
  Claim C10. When the run fails while it loads the options file (the file cannot be read,
  for another reason than its absence, or hjson cannot parse it) or while it reads one of
  the five templates, the event calls back with an error and the state is the state it
  started in: the stored checkpoint is unchanged, and no call to the stat log was made.
\<close>

theorem early_failure_keeps_checkpoint:
  assumes "(\<exists>err. fs_readFile E (optionsPath E args) = Inl err \<and> err_code err \<noteq> ''ENOENT'') \<or>
           (\<exists>d err. fs_readFile E (optionsPath E args) = Inr d \<and> d \<noteq> [] \<and>
                     hjson_parse E d = Inl err) \<or>
           (\<exists>opts name err. loadOptions E args = Inr opts \<and> name \<in> set TEMPLATE_NAMES \<and>
                     fs_readFile E (templatePath E opts name) = Inl err)"
  shows "\<exists>e. latestFilesAnnounceEvent E args st = (Some e, st)"
proof -
  from assms consider
    (read) err where "fs_readFile E (optionsPath E args) = Inl err" "err_code err \<noteq> ''ENOENT''"
  | (parse) d err where "fs_readFile E (optionsPath E args) = Inr d" "d \<noteq> []"
      "hjson_parse E d = Inl err"
  | (template) opts name err where "loadOptions E args = Inr opts" "name \<in> set TEMPLATE_NAMES"
      "fs_readFile E (templatePath E opts name) = Inl err"
    by blast
  then show ?thesis
  proof cases
    case read
    then show ?thesis
      using loadOptions_read_error event_options_error by blast
  next
    case parse
    then show ?thesis
      using loadOptions_parse_error event_options_error by blast
  next
    case template
    then show ?thesis
      using readTemplates_read_error event_templates_error
      by (cases "length args < 1") (blast intro: event_missing_param)+
  qed
qed

text \<open>
  Claim C6. On a run that finds no stored checkpoint, the event writes the current time as
  the checkpoint and calls back with the error "Last timestamp not set"; the message base
  is unchanged, and the only calls made are the read and the write of the stat: nothing
  is formatted and nothing is persisted.
\<close>

theorem first_run_sets_checkpoint_and_fails:
  assumes "1 \<le> length args"
    and "loadOptions E args = Inr opts"
    and "readTemplates E opts = Inr (templates, descIndent)"
    and "\<not> truthy (stats st STAT_KEY_LAST_TS)"
  shows "\<exists>st'. latestFilesAnnounceEvent E args st = (Some not_set_error, st') \<and>
           stats st' = (stats st)(STAT_KEY_LAST_TS \<mapsto> getISOTimestampString E) \<and>
           message_base st' = message_base st \<and>
           trace st' = trace st @ [EvGetSystemStat STAT_KEY_LAST_TS,
                         EvSetSystemStat STAT_KEY_LAST_TS (getISOTimestampString E)]"
  using assms by (simp add: event_reaches_scan findNewFiles_not_set)

subsection \<open>Enrichment of the files\<close>

lemma load_files_total:
  "\<forall>i \<in> set ids. \<exists>f. load E i = Inr f \<Longrightarrow> \<exists>fs b' st'. load_files E d ids (b, st) = (Inr fs, b', st')"
proof (induction ids arbitrary: b st)
  case Nil
  then show ?case by simp
next
  case (Cons i ids)
  then obtain f where f: "load E i = Inr f" by auto
  from Cons obtain fs b' st' where
    "load_files E d ids (b + byte_size (meta f), emit (EvLoad i) st) = (Inr fs, b', st')"
    by (meson list.set_intros(2))
  with f show ?case by simp
qed

lemma prepDesc_falsy:
  "\<not> truthy (snd (AnsiPrep E (entry_desc f) (79 - int d) d)) \<Longrightarrow> prepDesc E d f = f"
  by (cases "AnsiPrep E (entry_desc f) (79 - int d) d") (simp add: prepDesc_def)

text \<open>
  Claim C9. When every file of an area loads, the enrichment of the area succeeds whatever
  AnsiPrep calls back with; and a file whose reflow called back without a description
  (as a failure does) or with an empty one is handed on exactly as it was loaded.
\<close>

theorem reflow_failure_is_not_fatal:
  assumes "\<forall>i \<in> set ids. \<exists>f. load E i = Inr f"
  shows "\<exists>fs b' st'. load_files E d ids (b, st) = (Inr fs, b', st') \<and> length fs = length ids \<and>
           (\<forall>k < length ids. \<forall>f. load E (ids ! k) = Inr f \<longrightarrow>
              \<not> truthy (snd (AnsiPrep E (entry_desc f) (79 - int d) d)) \<longrightarrow> fs ! k = f)"
proof -
  from load_files_total[OF assms] obtain fs b' st' where
    lf: "load_files E d ids (b, st) = (Inr fs, b', st')"
    by blast
  from load_files_Inr[OF lf] have m: "map (loadFileInfo E d) ids = map Inr fs"
    by simp
  then have len: "length fs = length ids"
    by (metis length_map)
  have "fs ! k = f" if k: "k < length ids" and f: "load E (ids ! k) = Inr f"
    and t: "\<not> truthy (snd (AnsiPrep E (entry_desc f) (79 - int d) d))" for k f
  proof -
    from m k len have "loadFileInfo E d (ids ! k) = Inr (fs ! k)"
      by (metis nth_map)
    with f t show ?thesis
      by (simp add: loadFileInfo_def prepDesc_falsy)
  qed
  with lf len show ?thesis by blast
qed

subsection \<open>Totals and calls of the report\<close>

lemma forEach_area_frame:
  "forEach_area E T as (fo, b, st) = (fo', b', st') \<Longrightarrow>
     totalFileCount fo' = totalFileCount fo + sum_list (map (\<lambda>a. length (files a)) as) \<and>
     totalFileBytes fo' =
       totalFileBytes fo + sum_list (map info_areaFileBytes (filter (\<lambda>a. files a \<noteq> []) as)) \<and>
     stats st' = stats st \<and> message_base st' = message_base st \<and>
     (\<exists>evs. trace st' = trace st @ evs \<and> length evs = sum_list (map section_calls as) \<and>
        list_all is_format_step evs)"
proof (induction as arbitrary: fo b st)
  case Nil
  then show ?case by simp
next
  case (Cons a as)
  show ?case
  proof (cases "files a = []")
    case True
    with Cons.prems have "forEach_area E T as (fo, b, st) = (fo', b', st')"
      by simp
    from Cons.IH[OF this] True show ?thesis
      by (simp add: section_calls_def)
  next
    case False
    define fo1 where "fo1 = set_area_fields fo a"
    obtain fo2 b2 st2 where ff:
      "forEach_file E (T ! 2) (files a)
         (fo1, b @ stringFormat E (T ! 1) fo1, emit (EvStringFormat (T ! 1) fo1) st) = (fo2, b2, st2)"
      by (rule prod_cases3)
    from forEach_file_frame[OF ff] obtain evs2 where
      f2: "totalFileCount fo2 = totalFileCount fo1" "totalFileBytes fo2 = totalFileBytes fo1"
          "stats st2 = stats st" "message_base st2 = message_base st"
          "trace st2 = trace st @ EvStringFormat (T ! 1) fo1 # evs2"
          "length evs2 = length (files a)" "list_all is_format_step evs2"
      by auto
    from Cons.prems False ff have
      "forEach_area E T as (fo2, b2 @ stringFormat E (T ! 3) fo2,
         emit (EvStringFormat (T ! 3) fo2) st2) = (fo', b', st')"
      by (simp add: append_format_eq fo1_def)
    from Cons.IH[OF this] obtain evs3 where
      f3: "totalFileCount fo' = totalFileCount fo2 + sum_list (map (\<lambda>a. length (files a)) as)"
          "totalFileBytes fo' =
             totalFileBytes fo2 + sum_list (map info_areaFileBytes (filter (\<lambda>a. files a \<noteq> []) as))"
          "stats st' = stats st2" "message_base st' = message_base st2"
          "trace st' = trace st2 @ EvStringFormat (T ! 3) fo2 # evs3"
          "length evs3 = sum_list (map section_calls as)" "list_all is_format_step evs3"
      by auto
    have "trace st' = trace st @ (EvStringFormat (T ! 1) fo1 # evs2 @ EvStringFormat (T ! 3) fo2 # evs3)"
      using f2 f3 by simp
    moreover have "length (EvStringFormat (T ! 1) fo1 # evs2 @ EvStringFormat (T ! 3) fo2 # evs3)
        = sum_list (map section_calls (a # as))"
      using f2 f3 False by (simp add: section_calls_def)
    moreover have "list_all is_format_step
        (EvStringFormat (T ! 1) fo1 # evs2 @ EvStringFormat (T ! 3) fo2 # evs3)"
      using f2 f3 by simp
    ultimately have ev: "\<exists>evs. trace st' = trace st @ evs \<and>
        length evs = sum_list (map section_calls (a # as)) \<and> list_all is_format_step evs"
      by blast
    have c: "totalFileCount fo' = totalFileCount fo + sum_list (map (\<lambda>a. length (files a)) (a # as))"
      using f2(1) f3(1) by (simp add: fo1_def)
    have y: "totalFileBytes fo' =
       totalFileBytes fo + sum_list (map info_areaFileBytes (filter (\<lambda>a. files a \<noteq> []) (a # as)))"
      using f2(2) f3(2) False by (simp add: fo1_def)
    have s: "stats st' = stats st" "message_base st' = message_base st"
      using f2(3,4) f3(3,4) by simp_all
    from c y s ev show ?thesis by blast
  qed
qed

lemma forEach_area_no_files:
  "list_all (\<lambda>a. files a = []) as \<Longrightarrow> forEach_area E T as r = r"
proof (induction as)
  case Nil
  then show ?case by simp
next
  case (Cons a as)
  obtain fo b st where r: "r = (fo, b, st)" by (rule prod_cases3)
  from Cons show ?case unfolding r by simp
qed

lemma initial_totals [simp]:
  "totalFileCount (initial_formatObj E opts) = 0"
  "totalFileBytes (initial_formatObj E opts) = 0"
  by (simp_all add: initial_formatObj_def)

lemma render_report_frame:
  assumes "render_report E opts T as st = (fo, body, st')"
  shows "totalFileCount fo = sum_list (map (\<lambda>a. length (files a)) as) \<and>
     totalFileBytes fo = sum_list (map info_areaFileBytes (filter (\<lambda>a. files a \<noteq> []) as)) \<and>
     stats st' = stats st \<and> message_base st' = message_base st \<and>
     (\<exists>evs. trace st' = trace st @ EvStringFormat (T ! 0) (initial_formatObj E opts) # evs @
                [EvStringFormat (T ! 4) fo] \<and>
        length evs = sum_list (map section_calls as) \<and> list_all is_format_step evs)"
proof -
  define fo0 where "fo0 = initial_formatObj E opts"
  obtain fo1 b1 st1 where fa:
    "forEach_area E T as (fo0, stringFormat E (T ! 0) fo0, emit (EvStringFormat (T ! 0) fo0) st)
       = (fo1, b1, st1)"
    by (rule prod_cases3)
  from assms fa have r: "fo = fo1" "st' = emit (EvStringFormat (T ! 4) fo1) st1"
    by (auto simp: render_report_def append_format_eq fo0_def)
  from forEach_area_frame[OF fa] obtain evs where
    f: "totalFileCount fo1 = totalFileCount fo0 + sum_list (map (\<lambda>a. length (files a)) as)"
       "totalFileBytes fo1 =
          totalFileBytes fo0 + sum_list (map info_areaFileBytes (filter (\<lambda>a. files a \<noteq> []) as))"
       "stats st1 = stats st" "message_base st1 = message_base st"
       "trace st1 = trace st @ EvStringFormat (T ! 0) fo0 # evs"
       "length evs = sum_list (map section_calls as)" "list_all is_format_step evs"
    by auto
  have "trace st' = trace st @ EvStringFormat (T ! 0) (initial_formatObj E opts) # evs @
                [EvStringFormat (T ! 4) fo]"
    using r f(5) by (simp add: fo0_def)
  with f(6,7) have "\<exists>evs. trace st' = trace st @ EvStringFormat (T ! 0) (initial_formatObj E opts) # evs @
                [EvStringFormat (T ! 4) fo] \<and>
        length evs = sum_list (map section_calls as) \<and> list_all is_format_step evs"
    by blast
  moreover have "totalFileCount fo = sum_list (map (\<lambda>a. length (files a)) as)"
    "totalFileBytes fo = sum_list (map info_areaFileBytes (filter (\<lambda>a. files a \<noteq> []) as))"
    using r f(1,2) by (simp_all add: fo0_def)
  moreover have "stats st' = stats st" "message_base st' = message_base st"
    using r f(3,4) by simp_all
  ultimately show ?thesis by blast
qed

lemma render_report_events:
  assumes "render_report E opts T as st = (fo, body, st')"
  shows "stats st' = stats st \<and> message_base st' = message_base st \<and>
     (\<exists>evs. trace st' = trace st @ evs \<and> list_all is_format_step evs)"
proof -
  from render_report_frame[OF assms] obtain evs where
    s: "stats st' = stats st" "message_base st' = message_base st" and
    t: "trace st' = trace st @ EvStringFormat (T ! 0) (initial_formatObj E opts) # evs @
                [EvStringFormat (T ! 4) fo]" and
    a: "list_all is_format_step evs"
    by blast
  have "trace st' = trace st @ (EvStringFormat (T ! 0) (initial_formatObj E opts) # evs @
                [EvStringFormat (T ! 4) fo])"
    using t by simp
  moreover have "list_all is_format_step (EvStringFormat (T ! 0) (initial_formatObj E opts) # evs @
                [EvStringFormat (T ! 4) fo])"
    using a by simp
  ultimately show ?thesis
    using s by blast
qed

subsection \<open>The stat log is touched once\<close>

lemma format_not_stat: "is_format_step e \<Longrightarrow> \<not> is_stat_step e"
  by (cases e) simp_all

lemma scan_not_stat: "is_scan_step e \<Longrightarrow> \<not> is_stat_step e"
  by (cases e) simp_all

lemma formats_not_stat: "list_all is_format_step evs \<Longrightarrow> list_all (\<lambda>e. \<not> is_stat_step e) evs"
  by (induction evs) (simp_all add: format_not_stat)

lemma scans_not_stat: "list_all is_scan_step evs \<Longrightarrow> list_all (\<lambda>e. \<not> is_stat_step e) evs"
  by (induction evs) (simp_all add: scan_not_stat)

lemma eachSeries_persist_frame:
  "eachSeries_persist E opts fo body tags st = (r, st') \<Longrightarrow>
     stats st' = stats st \<and>
     (\<exists>evs. trace st' = trace st @ evs \<and> list_all (\<lambda>e. \<not> is_stat_step e) evs)"
proof (induction tags arbitrary: st)
  case Nil
  then show ?case by simp
next
  case (Cons tag tags)
  define msg where "msg = new_Message E opts fo body tag"
  define e1 where "e1 = EvStringFormat (opt_subjectFormat opts) fo"
  define e2 where "e2 = EvPersistMessage msg"
  define st1 where "st1 = emit e2 (emit e1 st)"
  have st1: "stats st1 = stats st" "trace st1 = trace st @ [e1, e2]"
    by (simp_all add: st1_def)
  have ns: "list_all (\<lambda>e. \<not> is_stat_step e) [e1, e2]"
    by (simp add: e1_def e2_def)
  show ?case
  proof (cases "persistMessage E msg")
    case (Some err)
    with Cons.prems have "st' = st1"
      by (simp add: msg_def st1_def e1_def e2_def Let_def)
    with st1 ns show ?thesis by blast
  next
    case None
    with Cons.prems have
      "eachSeries_persist E opts fo body tags (st1\<lparr>message_base := message_base st1 @ [msg]\<rparr>) = (r, st')"
      by (simp add: msg_def st1_def e1_def e2_def Let_def)
    from Cons.IH[OF this] obtain evs where
      i: "stats st' = stats st1" "trace st' = trace st1 @ evs" "list_all (\<lambda>e. \<not> is_stat_step e) evs"
      by auto
    have "trace st' = trace st @ ([e1, e2] @ evs)"
      using i st1 by simp
    moreover have "list_all (\<lambda>e. \<not> is_stat_step e) ([e1, e2] @ evs)"
      using i ns by simp
    ultimately show ?thesis
      using i st1 by metis
  qed
qed

lemma buildMessages_frame:
  assumes "buildMessages E args opts T as st = (r, st')"
  shows "stats st' = stats st \<and>
     (\<exists>evs. trace st' = trace st @ evs \<and> list_all (\<lambda>e. \<not> is_stat_step e) evs)"
proof -
  obtain fo body st1 where rr: "render_report E opts T as st = (fo, body, st1)"
    by (rule prod_cases3)
  from render_report_events[OF rr] obtain evs1 where
    f1: "stats st1 = stats st" "trace st1 = trace st @ evs1" "list_all is_format_step evs1"
    by blast
  from f1(3) have n1: "list_all (\<lambda>e. \<not> is_stat_step e) evs1"
    by (rule formats_not_stat)
  show ?thesis
  proof (cases "totalFileCount fo > 0")
    case True
    with assms rr have
      "eachSeries_persist E opts fo body (split_comma (args ! 0)) st1 = (r, st')"
      by (simp add: buildMessages_def)
    from eachSeries_persist_frame[OF this] obtain evs2 where
      f2: "stats st' = stats st1" "trace st' = trace st1 @ evs2"
          "list_all (\<lambda>e. \<not> is_stat_step e) evs2"
      by blast
    have "trace st' = trace st @ (evs1 @ evs2)"
      using f1 f2 by simp
    moreover have "list_all (\<lambda>e. \<not> is_stat_step e) (evs1 @ evs2)"
      using n1 f2 by simp
    ultimately show ?thesis
      using f1 f2 by metis
  next
    case False
    with assms rr have "st' = st1" by (simp add: buildMessages_def)
    with f1 n1 show ?thesis by blast
  qed
qed

lemma scan_stage_calls:
  assumes "1 \<le> length args"
    and "loadOptions E args = Inr opts"
    and "readTemplates E opts = Inr (templates, descIndent)"
    and "latestFilesAnnounceEvent E args st = (r, st')"
  shows "stats st' = (stats st)(STAT_KEY_LAST_TS \<mapsto> getISOTimestampString E) \<and>
         (\<exists>post. trace st' = trace st @ EvGetSystemStat STAT_KEY_LAST_TS #
                     EvSetSystemStat STAT_KEY_LAST_TS (getISOTimestampString E) # post \<and>
                  list_all (\<lambda>e. \<not> is_stat_step e) post \<and>
                  (truthy (stats st STAT_KEY_LAST_TS) \<longrightarrow> post \<noteq> [] \<and> hd post = EvGetAreas))"
proof -
  define now where "now = getISOTimestampString E"
  define g where "g = EvGetSystemStat STAT_KEY_LAST_TS"
  define w where "w = EvSetSystemStat STAT_KEY_LAST_TS now"
  note ev = event_reaches_scan[OF assms(1-3), of st]
  show ?thesis
  proof (cases "truthy (stats st STAT_KEY_LAST_TS)")
    case False
    with assms(4) ev have "st' = st\<lparr>stats := (stats st)(STAT_KEY_LAST_TS \<mapsto> now),
           trace := trace st @ [g, w]\<rparr>"
      by (simp add: findNewFiles_not_set now_def g_def w_def)
    with False show ?thesis
      by (simp add: now_def g_def w_def)
  next
    case True
    then obtain ts where ts: "stats st STAT_KEY_LAST_TS = Some ts" "ts \<noteq> []"
      by (auto simp: truthy_def split: option.splits)
    define st2 where "st2 = st\<lparr>stats := (stats st)(STAT_KEY_LAST_TS \<mapsto> now),
                   trace := trace st @ [g, w, EvGetAreas]\<rparr>"
    obtain sr st3 where sc: "scan_areas E opts descIndent ts (matching_areas E opts) st2 = (sr, st3)"
      by fastforce
    from scan_areas_frame[OF sc] obtain evs3 where
      f3: "stats st3 = stats st2" "trace st3 = trace st2 @ evs3" "list_all is_scan_step evs3"
      by blast
    from f3(3) have n3: "list_all (\<lambda>e. \<not> is_stat_step e) evs3"
      by (rule scans_not_stat)
    have fn: "findNewFiles E opts descIndent st =
       (case (sr, st3) of
          (Inl err, st3) \<Rightarrow> (Inl err, st3)
        | (Inr afs, st3) \<Rightarrow>
            (Inr (opts\<lparr>opt_sinceTs := Some (moment_format E (Some ts) (opt_tsFormat opts))\<rparr>, afs),
             st3))"
      using findNewFiles_set[OF ts, of E opts descIndent] sc
      by (simp add: st2_def now_def g_def w_def)
    have "stats st' = stats st3 \<and>
       (\<exists>evs. trace st' = trace st3 @ evs \<and> list_all (\<lambda>e. \<not> is_stat_step e) evs)"
    proof (cases sr)
      case (Inl err)
      with assms(4) ev fn have "st' = st3" by simp
      then show ?thesis by simp
    next
      case (Inr afs)
      with assms(4) ev fn have
        "buildMessages E args (opts\<lparr>opt_sinceTs := Some (moment_format E (Some ts) (opt_tsFormat opts))\<rparr>)
           templates afs st3 = (r, st')"
        by simp
      from buildMessages_frame[OF this] show ?thesis .
    qed
    then obtain evs4 where
      f4: "stats st' = stats st3" "trace st' = trace st3 @ evs4"
          "list_all (\<lambda>e. \<not> is_stat_step e) evs4"
      by blast
    have "stats st' = (stats st)(STAT_KEY_LAST_TS \<mapsto> now)"
      using f3 f4 by (simp add: st2_def)
    moreover have "trace st' = trace st @ g # w # (EvGetAreas # evs3 @ evs4)"
      using f3 f4 by (simp add: st2_def)
    moreover have "list_all (\<lambda>e. \<not> is_stat_step e) (EvGetAreas # evs3 @ evs4)"
      using n3 f4 by simp
    moreover have "EvGetAreas # evs3 @ evs4 \<noteq> [] \<and> hd (EvGetAreas # evs3 @ evs4) = EvGetAreas"
      by simp
    ultimately show ?thesis
      unfolding now_def g_def w_def by blast
  qed
qed

text \<open>
  Claim C1. The checkpoint is overwritten with the current time right after it is read
  and before any area is enumerated or any file is queried. A run that reaches
  \<^verbatim>\<open>findNewFiles\<close> (arguments given, options and templates loaded) begins its calls with
  the read of the stat and the write of the current time, in this order, and makes no
  other call to the stat log; all the calls of the scan come after these two. A run that
  does not reach the stage makes no call at all and leaves the state as it was.
\<close>

theorem checkpoint_written_before_scan:
  assumes "latestFilesAnnounceEvent E args st = (r, st')"
  shows "if 1 \<le> length args \<and>
            (\<exists>opts. loadOptions E args = Inr opts \<and> (\<exists>T d. readTemplates E opts = Inr (T, d)))
         then stats st' = (stats st)(STAT_KEY_LAST_TS \<mapsto> getISOTimestampString E) \<and>
              (\<exists>post. trace st' = trace st @ EvGetSystemStat STAT_KEY_LAST_TS #
                          EvSetSystemStat STAT_KEY_LAST_TS (getISOTimestampString E) # post \<and>
                  list_all (\<lambda>e. \<not> is_stat_step e) post \<and>
                  (truthy (stats st STAT_KEY_LAST_TS) \<longrightarrow> post \<noteq> [] \<and> hd post = EvGetAreas))
         else st' = st"
proof (cases "1 \<le> length args \<and>
            (\<exists>opts. loadOptions E args = Inr opts \<and> (\<exists>T d. readTemplates E opts = Inr (T, d)))")
  case True
  then obtain opts T d where "1 \<le> length args" "loadOptions E args = Inr opts"
    "readTemplates E opts = Inr (T, d)"
    by blast
  from scan_stage_calls[OF this assms] True show ?thesis
    by simp
next
  case False
  have "\<exists>e. latestFilesAnnounceEvent E args st = (Some e, st)"
  proof (cases "length args < 1")
    case True
    then show ?thesis by (rule event_missing_param)
  next
    case nonempty: False
    show ?thesis
    proof (cases "loadOptions E args")
      case (Inl err)
      then show ?thesis by (rule event_options_error)
    next
      case (Inr opts)
      with False nonempty obtain err where "readTemplates E opts = Inl err"
        by (cases "readTemplates E opts") auto
      with Inr show ?thesis by (rule event_templates_error)
    qed
  qed
  with assms False show ?thesis by auto
qed


subsection \<open>A run without new files\<close>

lemma buildMessages_no_files:
  assumes "list_all (\<lambda>a. files a = []) afs"
  shows "buildMessages E args opts T afs st =
     (None, st\<lparr>trace := trace st @ [EvStringFormat (T ! 0) (initial_formatObj E opts),
                                    EvStringFormat (T ! 4) (initial_formatObj E opts)]\<rparr>)"
  using assms
  by (simp add: buildMessages_def render_report_def forEach_area_no_files append_format_eq emit_def)

text \<open>
  Claim C7. When the run reaches the scan with a stored checkpoint and the file base has
  no new file in any of the matching areas, the event calls back without an error, the
  message base is unchanged, no call to \<^verbatim>\<open>persistMessage\<close> is made, and the
  checkpoint holds the current time.
\<close>

theorem nothing_new_nothing_sent:
  assumes "1 \<le> length args"
    and "loadOptions E args = Inr opts"
    and "readTemplates E opts = Inr (templates, descIndent)"
    and "stats st STAT_KEY_LAST_TS = Some ts" and "ts \<noteq> []"
    and "\<forall>area \<in> set (matching_areas E opts). findFiles E ts (areaTag area) = Inr []"
  shows "\<exists>st' evs. latestFilesAnnounceEvent E args st = (None, st') \<and>
           message_base st' = message_base st \<and>
           stats st' = (stats st)(STAT_KEY_LAST_TS \<mapsto> getISOTimestampString E) \<and>
           trace st' = trace st @ evs \<and> list_all (\<lambda>e. \<not> is_persist_step e) evs"
proof -
  define now where "now = getISOTimestampString E"
  define st2 where "st2 = st\<lparr>stats := (stats st)(STAT_KEY_LAST_TS \<mapsto> now),
     trace := trace st @ [EvGetSystemStat STAT_KEY_LAST_TS, EvSetSystemStat STAT_KEY_LAST_TS now,
                          EvGetAreas]\<rparr>"
  define finds where "finds = map (\<lambda>area. EvFindFiles ts (areaTag area)) (matching_areas E opts)"
  define opts' where
    "opts' = opts\<lparr>opt_sinceTs := Some (moment_format E (Some ts) (opt_tsFormat opts))\<rparr>"
  define fo0 where "fo0 = initial_formatObj E opts'"
  from scan_areas_nothing_new[OF assms(6), of opts descIndent st2] obtain afs where
    sc: "scan_areas E opts descIndent ts (matching_areas E opts) st2 =
           (Inr afs, st2\<lparr>trace := trace st2 @ finds\<rparr>)"
    and em: "list_all (\<lambda>a. files a = []) afs"
    unfolding finds_def by blast
  have fn: "findNewFiles E opts descIndent st = (Inr (opts', afs), st2\<lparr>trace := trace st2 @ finds\<rparr>)"
    using findNewFiles_set[OF assms(4,5), of E opts descIndent] sc
    by (simp add: st2_def now_def opts'_def)
  define st' where "st' = (st2\<lparr>trace := trace st2 @ finds\<rparr>)\<lparr>trace := trace (st2\<lparr>trace := trace st2 @ finds\<rparr>) @
        [EvStringFormat (templates ! 0) fo0, EvStringFormat (templates ! 4) fo0]\<rparr>"
  have run: "latestFilesAnnounceEvent E args st = (None, st')"
    using event_reaches_scan[OF assms(1-3), of st] fn
      buildMessages_no_files[OF em, of E args opts' templates "st2\<lparr>trace := trace st2 @ finds\<rparr>"]
    by (simp add: st'_def fo0_def)
  define evs where "evs = [EvGetSystemStat STAT_KEY_LAST_TS, EvSetSystemStat STAT_KEY_LAST_TS now,
      EvGetAreas] @ finds @ [EvStringFormat (templates ! 0) fo0, EvStringFormat (templates ! 4) fo0]"
  have "list_all (\<lambda>e. \<not> is_persist_step e) finds"
    by (simp add: finds_def list_all_iff)
  then have np: "list_all (\<lambda>e. \<not> is_persist_step e) evs"
    by (simp add: evs_def)
  have "message_base st' = message_base st" "stats st' = (stats st)(STAT_KEY_LAST_TS \<mapsto> now)"
    "trace st' = trace st @ evs"
    by (simp_all add: st'_def st2_def evs_def)
  with run np show ?thesis
    unfolding now_def by blast
qed

subsection \<open>The cap and the totals\<close>

lemma slice0_nonneg: "0 \<le> e \<Longrightarrow> slice0 xs e = take (min (length xs) (nat e)) xs"
  by (cases "e \<le> int (length xs)") (auto simp: slice0_def Let_def min_def)

text \<open>
  Claim C2, as amended. Let C be the cap as the scan reads it, \<^verbatim>\<open>options.maxFilesPerArea\<close>
  after \<^verbatim>\<open>loadOptions\<close> (which has put 20 for a missing value and for 0), and let C not
  be negative. For an area whose query yields N file ids, the area's report holds exactly
  min(N, C) files, which are the loaded and prepared first min(N, C) ids in the order of
  the query, and \<^verbatim>\<open>areaRemainingFiles\<close> is N - C when N > C and 0 otherwise.
\<close>

theorem cap_keeps_first_files:
  assumes "scan_area E opts d ts area st = (Inr a, st')"
    and "0 \<le> opt_maxFilesPerArea opts"
  shows "\<exists>ids. findFiles E ts (areaTag area) = Inr ids \<and>
           length (files a) = min (length ids) (nat (opt_maxFilesPerArea opts)) \<and>
           map (loadFileInfo E d) (take (min (length ids) (nat (opt_maxFilesPerArea opts))) ids)
             = map Inr (files a) \<and>
           areaRemainingFiles (set_area_fields fo a) =
             Some (if int (length ids) > opt_maxFilesPerArea opts
                   then int (length ids) - opt_maxFilesPerArea opts else 0) \<and>
           areaFileCount (set_area_fields fo a) =
             Some (min (length ids) (nat (opt_maxFilesPerArea opts)))"
proof -
  from scan_area_Inr[OF assms(1)] obtain ids where
    ff: "findFiles E ts (areaTag area) = Inr ids" and
    m: "map (loadFileInfo E d) (slice0 ids (opt_maxFilesPerArea opts)) = map Inr (files a)" and
    r: "remainingFiles a =
             (if int (length ids) > opt_maxFilesPerArea opts
              then int (length ids) - opt_maxFilesPerArea opts else 0)"
    by blast
  from m assms(2) have m': "map (loadFileInfo E d)
       (take (min (length ids) (nat (opt_maxFilesPerArea opts))) ids) = map Inr (files a)"
    by (simp add: slice0_nonneg)
  then have "length (take (min (length ids) (nat (opt_maxFilesPerArea opts))) ids) = length (files a)"
    by (metis length_map)
  then have len: "length (files a) = min (length ids) (nat (opt_maxFilesPerArea opts))"
    by simp
  from ff m' len r show ?thesis
    by (simp add: set_area_fields_def)
qed

lemma findNewFiles_Inr:
  assumes "findNewFiles E opts d st = (Inr (opts', afs), st1)"
  shows "\<exists>ts st2. stats st STAT_KEY_LAST_TS = Some ts \<and> ts \<noteq> [] \<and>
           scan_areas E opts d ts (matching_areas E opts) st2 = (Inr afs, st1)"
proof (cases "truthy (stats st STAT_KEY_LAST_TS)")
  case False
  with assms show ?thesis by (simp add: findNewFiles_not_set)
next
  case True
  then obtain ts where ts: "stats st STAT_KEY_LAST_TS = Some ts" "ts \<noteq> []"
    by (auto simp: truthy_def split: option.splits)
  from assms findNewFiles_set[OF ts, of E opts d] show ?thesis
    using ts by (auto split: sum.splits prod.splits)
qed

lemma scan_areas_reports:
  assumes "scan_areas E opts d ts areas st = (Inr afs, st')"
  shows "list_all2 (\<lambda>area a. \<exists>ids. findFiles E ts (areaTag area) = Inr ids \<and>
            map (loadFileInfo E d) (slice0 ids (opt_maxFilesPerArea opts)) = map Inr (files a))
           areas afs \<and>
         list_all (\<lambda>a. info_areaFileBytes a = bytes_of (files a)) afs"
proof -
  have l2: "list_all2 (\<lambda>area a. \<exists>s s'. scan_area E opts d ts area s = (Inr a, s')) areas afs"
    using scan_areas_Inr[OF assms] .
  have 1: "list_all2 (\<lambda>area a. \<exists>ids. findFiles E ts (areaTag area) = Inr ids \<and>
            map (loadFileInfo E d) (slice0 ids (opt_maxFilesPerArea opts)) = map Inr (files a))
           areas afs"
  proof (rule list_all2_mono[OF l2])
    fix area a
    assume "\<exists>s s'. scan_area E opts d ts area s = (Inr a, s')"
    then obtain s s' where "scan_area E opts d ts area s = (Inr a, s')"
      by blast
    from scan_area_Inr[OF this]
    show "\<exists>ids. findFiles E ts (areaTag area) = Inr ids \<and>
            map (loadFileInfo E d) (slice0 ids (opt_maxFilesPerArea opts)) = map Inr (files a)"
      by blast
  qed
  have "info_areaFileBytes a = bytes_of (files a)" if "a \<in> set afs" for a
  proof -
    from that obtain k where k: "k < length afs" "afs ! k = a"
      by (auto simp: in_set_conv_nth)
    from l2 k have "\<exists>s s'. scan_area E opts d ts (areas ! k) s = (Inr a, s')"
      by (auto simp: list_all2_conv_all_nth)
    then obtain s s' where "scan_area E opts d ts (areas ! k) s = (Inr a, s')"
      by blast
    from scan_area_Inr[OF this] show ?thesis by blast
  qed
  then have 2: "list_all (\<lambda>a. info_areaFileBytes a = bytes_of (files a)) afs"
    by (simp add: list_all_iff)
  from 1 2 show ?thesis ..
qed

lemma bytes_of_Nil [simp]: "bytes_of [] = 0"
  by (simp add: bytes_of_def)

lemma bytes_of_Cons [simp]: "bytes_of (f # fs) = byte_size (meta f) + bytes_of fs"
  by (simp add: bytes_of_def)

lemma bytes_of_append [simp]: "bytes_of (xs @ ys) = bytes_of xs + bytes_of ys"
  by (simp add: bytes_of_def)

lemma sum_area_bytes:
  "list_all (\<lambda>a. info_areaFileBytes a = bytes_of (files a)) afs \<Longrightarrow>
     sum_list (map info_areaFileBytes (filter (\<lambda>a. files a \<noteq> []) afs)) =
     sum_list (map (\<lambda>a. bytes_of (files a)) afs)"
  by (induction afs) auto

text \<open>
  Claim C3. The \<^verbatim>\<open>formatObj\<close> that the footer is formatted with has
  \<^verbatim>\<open>totalFileCount\<close> equal to the sum over the areas of the number of their included
  files, and \<^verbatim>\<open>totalFileBytes\<close> equal to the sum of the byte sizes of these files;
  the included files of an area are those of the ids left by the cap, so a file beyond
  the cap adds to neither total.
\<close>

theorem totals_are_sums_of_included:
  assumes "findNewFiles E opts d st = (Inr (opts', afs), st1)"
    and "render_report E opts' T afs st1 = (fo, body, st2)"
  shows "totalFileCount fo = sum_list (map (\<lambda>a. length (files a)) afs) \<and>
         totalFileBytes fo = sum_list (map (\<lambda>a. bytes_of (files a)) afs) \<and>
         (\<exists>evs. trace st2 = trace st1 @ evs @ [EvStringFormat (T ! 4) fo]) \<and>
         (\<exists>ts. stats st STAT_KEY_LAST_TS = Some ts \<and>
            list_all2 (\<lambda>area a. \<exists>ids. findFiles E ts (areaTag area) = Inr ids \<and>
                map (loadFileInfo E d) (slice0 ids (opt_maxFilesPerArea opts)) = map Inr (files a))
              (matching_areas E opts) afs)"
proof -
  from findNewFiles_Inr[OF assms(1)] obtain ts s2 where
    ts: "stats st STAT_KEY_LAST_TS = Some ts" and
    sc: "scan_areas E opts d ts (matching_areas E opts) s2 = (Inr afs, st1)"
    by blast
  note rep = scan_areas_reports[OF sc]
  from render_report_frame[OF assms(2)] obtain evs where
    c: "totalFileCount fo = sum_list (map (\<lambda>a. length (files a)) afs)" and
    y: "totalFileBytes fo = sum_list (map info_areaFileBytes (filter (\<lambda>a. files a \<noteq> []) afs))" and
    t: "trace st2 = trace st1 @ EvStringFormat (T ! 0) (initial_formatObj E opts') # evs @
                [EvStringFormat (T ! 4) fo]"
    by blast
  from t have "trace st2 = trace st1 @ (EvStringFormat (T ! 0) (initial_formatObj E opts') # evs) @
                [EvStringFormat (T ! 4) fo]"
    by simp
  then have t': "\<exists>evs. trace st2 = trace st1 @ evs @ [EvStringFormat (T ! 4) fo]"
    by blast
  from y rep have y': "totalFileBytes fo = sum_list (map (\<lambda>a. bytes_of (files a)) afs)"
    by (simp add: sum_area_bytes)
  from rep have l2: "list_all2 (\<lambda>area a. \<exists>ids. findFiles E ts (areaTag area) = Inr ids \<and>
                map (loadFileInfo E d) (slice0 ids (opt_maxFilesPerArea opts)) = map Inr (files a))
              (matching_areas E opts) afs" ..
  with ts have "\<exists>ts. stats st STAT_KEY_LAST_TS = Some ts \<and>
            list_all2 (\<lambda>area a. \<exists>ids. findFiles E ts (areaTag area) = Inr ids \<and>
                map (loadFileInfo E d) (slice0 ids (opt_maxFilesPerArea opts)) = map Inr (files a))
              (matching_areas E opts) afs"
    by (intro exI conjI)
  with c y' t' show ?thesis by (intro conjI)
qed

text \<open>
  Claim C5. An area without new files adds nothing to the report: with or without it in
  the list of areas, the body, the calls to \<^verbatim>\<open>stringFormat\<close>, the final
  \<^verbatim>\<open>formatObj\<close> with its totals, and what \<^verbatim>\<open>buildMessages\<close> does are the same.
\<close>

theorem empty_area_leaves_no_trace:
  assumes "files a = []"
  shows "render_report E opts T (pre @ a # post) st = render_report E opts T (pre @ post) st \<and>
         buildMessages E args opts T (pre @ a # post) st = buildMessages E args opts T (pre @ post) st"
proof -
  have "forEach_area E T (pre @ a # post) r = forEach_area E T (pre @ post) r" for r
  proof -
    obtain fo b s where "forEach_area E T pre r = (fo, b, s)"
      by (rule prod_cases3)
    with assms show ?thesis
      by (simp add: forEach_area_append)
  qed
  then show ?thesis
    by (simp add: render_report_def buildMessages_def)
qed

subsection \<open>The totals an entry is formatted with\<close>

lemma set_file_fields_entry [simp]:
  "fileSize (set_file_fields fo f) = Some (byte_size (meta f))"
  "fileName (set_file_fields fo f) = Some (entry_fileName f)"
  by (simp_all add: set_file_fields_def)

lemma forEach_file_calls:
  "forEach_file E t fs (fo, b, st) = (fo', b', st') \<Longrightarrow>
     \<exists>evs. trace st' = trace st @ evs \<and>
       list_all2 (entry_call t (totalFileCount fo) (totalFileBytes fo)) fs evs"
proof (induction fs arbitrary: fo b st)
  case Nil
  then show ?case by simp
next
  case (Cons f fs)
  define fo1 where "fo1 = set_file_fields fo f"
  from Cons.prems have
    "forEach_file E t fs (fo1, b @ stringFormat E t fo1, emit (EvStringFormat t fo1) st) = (fo', b', st')"
    by (simp add: append_format_eq fo1_def)
  from Cons.IH[OF this] obtain evs where
    t: "trace st' = trace st @ EvStringFormat t fo1 # evs" and
    a: "list_all2 (entry_call t (totalFileCount fo) (totalFileBytes fo)) fs evs"
    by (auto simp: fo1_def)
  have "entry_call t (totalFileCount fo) (totalFileBytes fo) f (EvStringFormat t fo1)"
    by (simp add: fo1_def)
  with a have "list_all2 (entry_call t (totalFileCount fo) (totalFileBytes fo)) (f # fs)
      (EvStringFormat t fo1 # evs)"
    by simp
  with t show ?case by blast
qed

lemma forEach_file_body:
  "forEach_file E t fs (fo, b, st) = (fo', b', st') \<Longrightarrow>
     \<exists>evs. trace st' = trace st @ evs \<and> b' = b @ concat (map (format_output E) evs)"
proof (induction fs arbitrary: fo b st)
  case Nil
  then show ?case by simp
next
  case (Cons f fs)
  define fo1 where "fo1 = set_file_fields fo f"
  from Cons.prems have
    "forEach_file E t fs (fo1, b @ stringFormat E t fo1, emit (EvStringFormat t fo1) st) = (fo', b', st')"
    by (simp add: append_format_eq fo1_def)
  from Cons.IH[OF this] obtain evs where
    t: "trace st' = trace st @ (EvStringFormat t fo1 # evs)" and
    b: "b' = b @ concat (map (format_output E) (EvStringFormat t fo1 # evs))"
    by auto
  then show ?case by blast
qed

lemma forEach_area_body:
  "forEach_area E T as (fo, b, st) = (fo', b', st') \<Longrightarrow>
     \<exists>evs. trace st' = trace st @ evs \<and> b' = b @ concat (map (format_output E) evs)"
proof (induction as arbitrary: fo b st)
  case Nil
  then show ?case by simp
next
  case (Cons a as)
  show ?case
  proof (cases "files a = []")
    case True
    with Cons.prems have "forEach_area E T as (fo, b, st) = (fo', b', st')"
      by simp
    from Cons.IH[OF this] show ?thesis .
  next
    case False
    define fo1 where "fo1 = set_area_fields fo a"
    define AH where "AH = EvStringFormat (T ! 1) fo1"
    obtain fo2 b2 st2 where ff:
      "forEach_file E (T ! 2) (files a) (fo1, b @ stringFormat E (T ! 1) fo1, emit AH st)
         = (fo2, b2, st2)"
      by (rule prod_cases3)
    from forEach_file_body[OF ff] obtain evs2 where
      t2: "trace st2 = trace st @ AH # evs2" and
      b2: "b2 = b @ concat (map (format_output E) (AH # evs2))"
      by (auto simp: AH_def)
    define AF where "AF = EvStringFormat (T ! 3) fo2"
    from Cons.prems False ff have
      "forEach_area E T as (fo2, b2 @ stringFormat E (T ! 3) fo2, emit AF st2) = (fo', b', st')"
      by (simp add: append_format_eq fo1_def AH_def AF_def)
    from Cons.IH[OF this] obtain evs3 where
      t3: "trace st' = trace st2 @ AF # evs3" and
      b3: "b' = b2 @ concat (map (format_output E) (AF # evs3))"
      by (auto simp: AF_def)
    have "trace st' = trace st @ (AH # evs2 @ AF # evs3)"
      using t2 t3 by simp
    moreover have "b' = b @ concat (map (format_output E) (AH # evs2 @ AF # evs3))"
      using b2 b3 by simp
    ultimately show ?thesis by blast
  qed
qed

lemma render_report_body:
  assumes "render_report E opts T as st = (fo, body, st')"
  shows "\<exists>evs. trace st' = trace st @ evs \<and> body = concat (map (format_output E) evs)"
proof -
  define fo0 where "fo0 = initial_formatObj E opts"
  define H where "H = EvStringFormat (T ! 0) fo0"
  obtain fo1 b1 st1 where fa:
    "forEach_area E T as (fo0, stringFormat E (T ! 0) fo0, emit H st) = (fo1, b1, st1)"
    by (rule prod_cases3)
  from forEach_area_body[OF fa] obtain evs where
    t1: "trace st1 = trace st @ H # evs" and
    b1: "b1 = concat (map (format_output E) (H # evs))"
    by (auto simp: H_def)
  define F where "F = EvStringFormat (T ! 4) fo1"
  from assms fa have r: "body = b1 @ stringFormat E (T ! 4) fo1" "st' = emit F st1"
    by (auto simp: render_report_def append_format_eq fo0_def H_def F_def)
  have "trace st' = trace st @ (H # evs @ [F])"
    using r t1 by simp
  moreover have "body = concat (map (format_output E) (H # evs @ [F]))"
    using r b1 by (simp add: F_def)
  ultimately show ?thesis by blast
qed

lemma area_section_in_report:
  assumes "files a \<noteq> []"
  shows "\<exists>before ah entries af after.
           trace (snd (snd (render_report E opts T (pre @ a # post) st))) =
             trace st @ before @ ah # entries @ af # after \<and>
           length before = 1 + sum_list (map section_calls pre) \<and>
           totals_call (T ! 1)
             (sum_list (map (\<lambda>b. length (files b)) pre) + length (files a))
             (sum_list (map info_areaFileBytes (filter (\<lambda>b. files b \<noteq> []) pre)) + info_areaFileBytes a)
             ah \<and>
           list_all2 (entry_call (T ! 2)
             (sum_list (map (\<lambda>b. length (files b)) pre) + length (files a))
             (sum_list (map info_areaFileBytes (filter (\<lambda>b. files b \<noteq> []) pre)) + info_areaFileBytes a))
             (files a) entries \<and>
           totals_call (T ! 3)
             (sum_list (map (\<lambda>b. length (files b)) pre) + length (files a))
             (sum_list (map info_areaFileBytes (filter (\<lambda>b. files b \<noteq> []) pre)) + info_areaFileBytes a)
             af"
proof -
  define fo0 where "fo0 = initial_formatObj E opts"
  define H where "H = EvStringFormat (T ! 0) fo0"
  obtain fo1 b1 s1 where r1:
    "forEach_area E T pre (fo0, stringFormat E (T ! 0) fo0, emit H st) = (fo1, b1, s1)"
    by (rule prod_cases3)
  from forEach_area_frame[OF r1] obtain evs_pre where
    c1: "totalFileCount fo1 = sum_list (map (\<lambda>b. length (files b)) pre)" and
    y1: "totalFileBytes fo1 = sum_list (map info_areaFileBytes (filter (\<lambda>b. files b \<noteq> []) pre))" and
    t1: "trace s1 = trace st @ H # evs_pre" and
    l1: "length evs_pre = sum_list (map section_calls pre)"
    by (auto simp: fo0_def)
  define fa where "fa = set_area_fields fo1 a"
  define AH where "AH = EvStringFormat (T ! 1) fa"
  obtain fo3 b3 s3 where r3:
    "forEach_file E (T ! 2) (files a) (fa, b1 @ stringFormat E (T ! 1) fa, emit AH s1) = (fo3, b3, s3)"
    by (rule prod_cases3)
  from forEach_file_calls[OF r3] obtain evs_a where
    t3: "trace s3 = trace s1 @ AH # evs_a" and
    a3: "list_all2 (entry_call (T ! 2) (totalFileCount fa) (totalFileBytes fa)) (files a) evs_a"
    by auto
  from forEach_file_frame[OF r3] have
    k3: "totalFileCount fo3 = totalFileCount fa" "totalFileBytes fo3 = totalFileBytes fa"
    by simp_all
  define AF where "AF = EvStringFormat (T ! 3) fo3"
  obtain fo5 b5 s5 where r5:
    "forEach_area E T post (fo3, b3 @ stringFormat E (T ! 3) fo3, emit AF s3) = (fo5, b5, s5)"
    by (rule prod_cases3)
  from forEach_area_frame[OF r5] obtain evs_post where
    t5: "trace s5 = trace s3 @ AF # evs_post"
    by auto
  have "render_report E opts T (pre @ a # post) st =
      (fo5, b5 @ stringFormat E (T ! 4) fo5, emit (EvStringFormat (T ! 4) fo5) s5)"
    using r1 r3 r5 assms
    by (simp add: render_report_def forEach_area_append append_format_eq fo0_def H_def fa_def
        AH_def AF_def)
  then have "trace (snd (snd (render_report E opts T (pre @ a # post) st))) =
      trace st @ (H # evs_pre) @ AH # evs_a @ AF # (evs_post @ [EvStringFormat (T ! 4) fo5])"
    using t1 t3 t5 by simp
  moreover have "length (H # evs_pre) = 1 + sum_list (map section_calls pre)"
    using l1 by simp
  moreover have "totals_call (T ! 1)
             (sum_list (map (\<lambda>b. length (files b)) pre) + length (files a))
             (sum_list (map info_areaFileBytes (filter (\<lambda>b. files b \<noteq> []) pre)) + info_areaFileBytes a)
             AH"
    using c1 y1 by (simp add: AH_def fa_def)
  moreover have "list_all2 (entry_call (T ! 2)
             (sum_list (map (\<lambda>b. length (files b)) pre) + length (files a))
             (sum_list (map info_areaFileBytes (filter (\<lambda>b. files b \<noteq> []) pre)) + info_areaFileBytes a))
             (files a) evs_a"
    using a3 c1 y1 by (simp add: fa_def)
  moreover have "totals_call (T ! 3)
             (sum_list (map (\<lambda>b. length (files b)) pre) + length (files a))
             (sum_list (map info_areaFileBytes (filter (\<lambda>b. files b \<noteq> []) pre)) + info_areaFileBytes a)
             AF"
    using k3 c1 y1 by (simp add: AF_def fa_def)
  ultimately show ?thesis by blast
qed

text \<open>
  Claim C4, as amended. The totals do not grow entry by entry: they are added to once per
  area with files, in the order of the areas, before the area's header is formatted. So
  all the calls of the section of an area (area header, one call per file in the order of
  the files, area footer, found in the call log right after the header and the sections
  of the earlier areas) are made with the same totals: \<^verbatim>\<open>totalFileCount\<close> counts the
  files of the earlier areas and all the files of this area, \<^verbatim>\<open>totalFileBytes\<close> is the
  bytes of the earlier areas plus the bytes of all the files of this area. The total an
  entry is formatted with thus holds the entry's own size, and also the sizes of the later
  entries of its area. The body of the report is the concatenation, in the order of the
  calls, of what \<^verbatim>\<open>stringFormat\<close> returned for them.
\<close>

theorem area_section_shows_area_totals:
  assumes "findNewFiles E opts d st = (Inr (opts', afs), st1)"
    and "afs = pre @ a # post"
    and "files a \<noteq> []"
    and "render_report E opts' T afs st1 = (fo, body, st2)"
  shows "\<exists>before ah entries af after.
           trace st2 = trace st1 @ before @ ah # entries @ af # after \<and>
           body = concat (map (format_output E) (before @ ah # entries @ af # after)) \<and>
           length before = 1 + sum_list (map section_calls pre) \<and>
           totals_call (T ! 1)
             (sum_list (map (\<lambda>b. length (files b)) pre) + length (files a))
             (sum_list (map (\<lambda>b. bytes_of (files b)) pre) + bytes_of (files a)) ah \<and>
           list_all2 (entry_call (T ! 2)
             (sum_list (map (\<lambda>b. length (files b)) pre) + length (files a))
             (sum_list (map (\<lambda>b. bytes_of (files b)) pre) + bytes_of (files a)))
             (files a) entries \<and>
           totals_call (T ! 3)
             (sum_list (map (\<lambda>b. length (files b)) pre) + length (files a))
             (sum_list (map (\<lambda>b. bytes_of (files b)) pre) + bytes_of (files a)) af"
proof -
  from findNewFiles_Inr[OF assms(1)] obtain ts s2 where
    sc: "scan_areas E opts d ts (matching_areas E opts) s2 = (Inr afs, st1)"
    by blast
  from scan_areas_reports[OF sc] have
    cons: "list_all (\<lambda>a. info_areaFileBytes a = bytes_of (files a)) afs" ..
  with assms(2) have cp: "list_all (\<lambda>a. info_areaFileBytes a = bytes_of (files a)) pre"
    and ca: "info_areaFileBytes a = bytes_of (files a)"
    by simp_all
  have y: "sum_list (map info_areaFileBytes (filter (\<lambda>b. files b \<noteq> []) pre)) + info_areaFileBytes a
      = sum_list (map (\<lambda>b. bytes_of (files b)) pre) + bytes_of (files a)"
    using sum_area_bytes[OF cp] ca by simp
  from area_section_in_report[OF assms(3), of E opts' T pre post st1]
  obtain before ah entries af after where
    t: "trace (snd (snd (render_report E opts' T (pre @ a # post) st1))) =
          trace st1 @ before @ ah # entries @ af # after" and
    l: "length before = 1 + sum_list (map section_calls pre)" and
    h: "totals_call (T ! 1)
             (sum_list (map (\<lambda>b. length (files b)) pre) + length (files a))
             (sum_list (map (\<lambda>b. bytes_of (files b)) pre) + bytes_of (files a)) ah" and
    e: "list_all2 (entry_call (T ! 2)
             (sum_list (map (\<lambda>b. length (files b)) pre) + length (files a))
             (sum_list (map (\<lambda>b. bytes_of (files b)) pre) + bytes_of (files a)))
             (files a) entries" and
    f: "totals_call (T ! 3)
             (sum_list (map (\<lambda>b. length (files b)) pre) + length (files a))
             (sum_list (map (\<lambda>b. bytes_of (files b)) pre) + bytes_of (files a)) af"
    unfolding y by blast
  from t assms(2,4) have t2: "trace st2 = trace st1 @ before @ ah # entries @ af # after"
    by simp
  from render_report_body[OF assms(4)] obtain evs where
    "trace st2 = trace st1 @ evs" and b: "body = concat (map (format_output E) evs)"
    by blast
  with t2 have "evs = before @ ah # entries @ af # after"
    by simp
  with b have "body = concat (map (format_output E) (before @ ah # entries @ af # after))"
    by simp
  with t2 l h e f show ?thesis by blast
qed

subsection \<open>Delivery\<close>

lemma split_acc_no_comma:
  "CHR '','' \<notin> set t \<Longrightarrow> split_acc cur (t @ rest) = split_acc (cur @ t) rest"
  by (induction t arbitrary: cur) auto

lemma split_acc_join:
  "\<forall>t \<in> set (t0 # ts). CHR '','' \<notin> set t \<Longrightarrow>
     split_acc cur (join_with '','' (t0 # ts)) = (cur @ t0) # ts"
proof (induction ts arbitrary: t0 cur)
  case Nil
  then show ?case
    using split_acc_no_comma[of t0 cur "[]"] by simp
next
  case (Cons t1 ts)
  then have t0: "CHR '','' \<notin> set t0" and rest: "\<forall>t \<in> set (t1 # ts). CHR '','' \<notin> set t"
    by simp_all
  have "split_acc cur (join_with '','' (t0 # t1 # ts)) =
        split_acc (cur @ t0) (CHR '','' # join_with '','' (t1 # ts))"
    using split_acc_no_comma[OF t0] by simp
  also have "\<dots> = (cur @ t0) # split_acc [] (join_with '','' (t1 # ts))"
    by simp
  also have "\<dots> = (cur @ t0) # t1 # ts"
    using Cons.IH[OF rest, of "[]"] by simp
  finally show ?case .
qed

lemma split_comma_join:
  "tags \<noteq> [] \<Longrightarrow> \<forall>t \<in> set tags. CHR '','' \<notin> set t \<Longrightarrow>
     split_comma (join_with '','' tags) = tags"
  using split_acc_join[of "hd tags" "tl tags" "[]"]
  by (cases tags) (simp_all add: split_comma_def)

lemma split_acc_length:
  "length (split_acc cur s) = Suc (length (filter (\<lambda>c. c = CHR '','') s))"
  by (induction s arbitrary: cur) auto

lemma eachSeries_persist_all:
  "\<forall>t \<in> set tags. persistMessage E (new_Message E opts fo body t) = None \<Longrightarrow>
     eachSeries_persist E opts fo body tags st =
       (None, st\<lparr>message_base := message_base st @ map (new_Message E opts fo body) tags,
                 trace := trace st @ posts (opt_subjectFormat opts) fo (new_Message E opts fo body) tags\<rparr>)"
proof (induction tags arbitrary: st)
  case Nil
  then show ?case by (simp add: posts_def)
next
  case (Cons t tags)
  then show ?case
    by (simp add: posts_def emit_def Let_def)
qed

lemma eachSeries_persist_stops:
  "\<forall>t \<in> set ok. persistMessage E (new_Message E opts fo body t) = None \<Longrightarrow>
   persistMessage E (new_Message E opts fo body bad) = Some err \<Longrightarrow>
     eachSeries_persist E opts fo body (ok @ bad # rest) st =
       (Some err, st\<lparr>message_base := message_base st @ map (new_Message E opts fo body) ok,
                     trace := trace st @ posts (opt_subjectFormat opts) fo (new_Message E opts fo body) (ok @ [bad])\<rparr>)"
proof (induction ok arbitrary: st)
  case Nil
  then show ?case by (simp add: posts_def emit_def Let_def)
next
  case (Cons t ok)
  then show ?case
    by (simp add: posts_def emit_def Let_def)
qed

lemma render_report_count_pos:
  assumes "render_report E opts T afs st = (fo, body, st1)" and "\<exists>a \<in> set afs. files a \<noteq> []"
  shows "totalFileCount fo > 0"
proof -
  from assms(2) obtain a where a: "a \<in> set afs" "files a \<noteq> []" by blast
  then have "length (files a) \<in> set (map (\<lambda>a. length (files a)) afs)" by auto
  then have "length (files a) \<le> sum_list (map (\<lambda>a. length (files a)) afs)"
    by (simp add: member_le_sum_list)
  moreover from a have "0 < length (files a)" by simp
  moreover from render_report_frame[OF assms(1)]
  have "totalFileCount fo = sum_list (map (\<lambda>a. length (files a)) afs)" by blast
  ultimately show ?thesis by linarith
qed

text \<open>
  Claim C8. Let the report include at least one file, let \<open>fo\<close> be the \<^verbatim>\<open>formatObj\<close>
  of the footer call and \<open>body\<close> the whole report (the formatted calls from header to
  footer, concatenated), and let the first argument list the tags \<open>tags\<close> separated by
  commas. The message of a tag is addressed to the tag, carries the names of the options,
  the subject format formatted with \<open>fo\<close>, \<open>body\<close> as its text and the encoding cp437.
  When every \<^verbatim>\<open>persistMessage\<close> succeeds, the event persists exactly these messages,
  one per tag in the order of the list, and calls back without error. When the message
  of some tag fails, the event calls back with that error, the messages of the tags
  before it are persisted, and no call is made for a tag after it.
\<close>

theorem one_message_per_destination:
  assumes "render_report E opts T afs st = (fo, body, st1)"
    and "\<exists>a \<in> set afs. files a \<noteq> []"
    and "args ! 0 = join_with '','' tags"
    and "tags \<noteq> []"
    and "\<forall>t \<in> set tags. CHR '','' \<notin> set t"
    and "mk = (\<lambda>tag. \<lparr>msg_areaTag = tag, toUserName = opt_to opts, fromUserName = opt_from opts,
                        subject = stringFormat E (opt_subjectFormat opts) fo, message = body,
                        explicit_encoding = ''cp437''\<rparr>)"
  shows "(\<exists>evs. trace st1 = trace st @ evs @ [EvStringFormat (T ! 4) fo] \<and>
            body = concat (map (format_output E) (evs @ [EvStringFormat (T ! 4) fo]))) \<and>
         ((\<forall>t \<in> set tags. persistMessage E (mk t) = None) \<longrightarrow>
            buildMessages E args opts T afs st =
              (None, st1\<lparr>message_base := message_base st1 @ map mk tags,
                         trace := trace st1 @ posts (opt_subjectFormat opts) fo mk tags\<rparr>)) \<and>
         (\<forall>ok bad rest err.
            tags = ok @ bad # rest \<and>
            (\<forall>t \<in> set ok. persistMessage E (mk t) = None) \<and>
            persistMessage E (mk bad) = Some err \<longrightarrow>
            buildMessages E args opts T afs st =
              (Some err, st1\<lparr>message_base := message_base st1 @ map mk ok,
                             trace := trace st1 @ posts (opt_subjectFormat opts) fo mk (ok @ [bad])\<rparr>))"
proof -
  have mk: "mk = new_Message E opts fo body"
    unfolding assms(6) by (rule ext) (simp add: new_Message_def)
  have sp: "split_comma (args ! 0) = tags"
    using assms(3-5) by (simp add: split_comma_join)
  have pos: "totalFileCount fo > 0"
    using render_report_count_pos[OF assms(1,2)] .
  have bm: "buildMessages E args opts T afs st = eachSeries_persist E opts fo body tags st1"
    using assms(1) sp pos by (simp add: buildMessages_def)
  from render_report_frame[OF assms(1)] obtain mid where
    t1: "trace st1 = trace st @ (EvStringFormat (T ! 0) (initial_formatObj E opts) # mid) @
           [EvStringFormat (T ! 4) fo]"
    by auto
  from render_report_body[OF assms(1)] obtain evs where
    "trace st1 = trace st @ evs" and b: "body = concat (map (format_output E) evs)"
    by blast
  with t1 have "evs = (EvStringFormat (T ! 0) (initial_formatObj E opts) # mid) @
           [EvStringFormat (T ! 4) fo]"
    by simp
  with b t1 have report: "\<exists>evs. trace st1 = trace st @ evs @ [EvStringFormat (T ! 4) fo] \<and>
            body = concat (map (format_output E) (evs @ [EvStringFormat (T ! 4) fo]))"
    by blast
  have all_ok: "buildMessages E args opts T afs st =
              (None, st1\<lparr>message_base := message_base st1 @ map mk tags,
                         trace := trace st1 @ posts (opt_subjectFormat opts) fo mk tags\<rparr>)"
    if "\<forall>t \<in> set tags. persistMessage E (mk t) = None"
    using that unfolding bm mk by (rule eachSeries_persist_all)
  have stops: "buildMessages E args opts T afs st =
              (Some err, st1\<lparr>message_base := message_base st1 @ map mk ok,
                             trace := trace st1 @ posts (opt_subjectFormat opts) fo mk (ok @ [bad])\<rparr>)"
    if "tags = ok @ bad # rest \<and>
            (\<forall>t \<in> set ok. persistMessage E (mk t) = None) \<and>
            persistMessage E (mk bad) = Some err" for ok bad rest err
    using that eachSeries_persist_stops[of ok E opts fo body bad err rest st1]
    unfolding bm mk by simp
  from report all_ok stops show ?thesis
    by (intro conjI impI allI) blast+
qed

subsection \<open>The event on the small board\<close>

lemma demo_loadOptions: "loadOptions demo_env [''a,b''] = Inr demo_options"
  by (simp add: loadOptions_def optionsPath_def demo_env_def demo_options_def)

lemma demo_readTemplates: "readTemplates demo_env demo_options = Inr (demo_templates, 0)"
  by (simp add: readTemplates_def TEMPLATE_NAMES_def templatePath_def demo_options_def
      with_defaults_def no_options_def or_str_def demo_env_def demo_templates_def)

lemma demo_prepDesc: "prepDesc demo_env d (demo_file n) = demo_file n"
  by (simp add: prepDesc_def demo_env_def demo_file_def truthy_def)

lemma demo_load: "load demo_env n = Inr (demo_file n)"
  by (simp add: demo_env_def)

lemma demo_size: "byte_size (meta (demo_file n)) = int n * 100"
  by (simp add: demo_file_def)

lemma demo_findFiles_x: "findFiles demo_env ts ''x'' = Inr [1, 2, 3]"
  by (simp add: demo_env_def)

lemma demo_findFiles_y: "findFiles demo_env ts ''y'' = Inr []"
  by (simp add: demo_env_def)

lemma demo_scan_capped:
  "scan_area demo_env capped_options 0 ''T1'' demo_area_x demo_sys =
     (Inr capped_report_x,
      demo_sys\<lparr>trace := [EvFindFiles ''T1'' ''x'', EvLoad 1, EvLoad 2]\<rparr>)"
  by (simp add: scan_area_def demo_area_x_def demo_findFiles_x capped_options_def slice0_def
      demo_load demo_prepDesc demo_size capped_report_x_def emit_def demo_sys_def)

lemma demo_matching_areas: "matching_areas demo_env opts = [demo_area_x, demo_area_y]"
  by (simp add: matching_areas_def demo_env_def demo_area_x_def demo_area_y_def)

lemma demo_cap: "opt_maxFilesPerArea demo_options = 20"
  by (simp add: demo_options_def with_defaults_def no_options_def or_num_def Let_def)

lemma demo_findNewFiles:
  "findNewFiles demo_env demo_options 0 demo_sys =
     (Inr (since_options, [demo_report_x, demo_report_y]), scanned_sys)"
proof -
  have s: "stats demo_sys STAT_KEY_LAST_TS = Some ''T1''"
    by (simp add: demo_sys_def)
  have m: "moment_format demo_env (Some ''T1'') f = ''T1''" for f
    by (simp add: demo_env_def)
  have n: "getISOTimestampString demo_env = ''T2''"
    by (simp add: demo_env_def)
  show ?thesis
    using findNewFiles_set[OF s, of demo_env demo_options 0]
    by (simp add: demo_matching_areas scan_area_def demo_area_x_def demo_area_y_def
        demo_findFiles_x demo_findFiles_y demo_cap slice0_def demo_load demo_prepDesc demo_size
        demo_report_x_def demo_report_y_def emit_def demo_sys_def scanned_sys_def
        since_options_def m n)
qed

lemma quiet_loadOptions: "loadOptions quiet_env [''a,b''] = Inr demo_options"
  by (simp add: loadOptions_def optionsPath_def quiet_env_def demo_env_def demo_options_def
      with_defaults_def)

lemma quiet_readTemplates: "readTemplates quiet_env demo_options = Inr (demo_templates, 0)"
  by (simp add: readTemplates_def TEMPLATE_NAMES_def templatePath_def demo_options_def
      with_defaults_def no_options_def or_str_def quiet_env_def demo_env_def demo_templates_def)

theorem checkpoint_written_before_scan_witness:
  "stats (snd (latestFilesAnnounceEvent demo_env [''a,b''] demo_sys)) STAT_KEY_LAST_TS = Some ''T2'' \<and>
   take 3 (trace (snd (latestFilesAnnounceEvent demo_env [''a,b''] demo_sys))) =
     [EvGetSystemStat STAT_KEY_LAST_TS, EvSetSystemStat STAT_KEY_LAST_TS ''T2'', EvGetAreas]"
proof -
  have c: "1 \<le> length [''a,b''] \<and>
      (\<exists>opts. loadOptions demo_env [''a,b''] = Inr opts \<and>
         (\<exists>T d. readTemplates demo_env opts = Inr (T, d)))"
    using demo_loadOptions demo_readTemplates by simp
  have t: "truthy (stats demo_sys STAT_KEY_LAST_TS)"
    by (simp add: demo_sys_def truthy_def)
  have n: "getISOTimestampString demo_env = ''T2''"
    by (simp add: demo_env_def)
  have e: "trace demo_sys = []"
    by (simp add: demo_sys_def)
  from checkpoint_written_before_scan[of demo_env "[''a,b'']" demo_sys
      "fst (latestFilesAnnounceEvent demo_env [''a,b''] demo_sys)"
      "snd (latestFilesAnnounceEvent demo_env [''a,b''] demo_sys)"] c t
  obtain post where
    "stats (snd (latestFilesAnnounceEvent demo_env [''a,b''] demo_sys)) =
       (stats demo_sys)(STAT_KEY_LAST_TS \<mapsto> ''T2'')"
    "trace (snd (latestFilesAnnounceEvent demo_env [''a,b''] demo_sys)) =
       EvGetSystemStat STAT_KEY_LAST_TS # EvSetSystemStat STAT_KEY_LAST_TS ''T2'' # post"
    "post \<noteq> []" "hd post = EvGetAreas"
    by (auto simp: n e)
  then show ?thesis
    by (cases post) simp_all
qed

theorem nothing_new_nothing_sent_witness:
  "fst (latestFilesAnnounceEvent quiet_env [''a,b''] demo_sys) = None \<and>
   message_base (snd (latestFilesAnnounceEvent quiet_env [''a,b''] demo_sys)) = [] \<and>
   stats (snd (latestFilesAnnounceEvent quiet_env [''a,b''] demo_sys)) STAT_KEY_LAST_TS = Some ''T2''"
proof -
  have s: "stats demo_sys STAT_KEY_LAST_TS = Some ''T1''"
    by (simp add: demo_sys_def)
  have q: "\<forall>area \<in> set (matching_areas quiet_env demo_options).
             findFiles quiet_env ''T1'' (areaTag area) = Inr []"
    by (simp add: quiet_env_def)
  have n: "getISOTimestampString quiet_env = ''T2''"
    by (simp add: quiet_env_def demo_env_def)
  have m: "message_base demo_sys = []"
    by (simp add: demo_sys_def)
  from nothing_new_nothing_sent[OF _ quiet_loadOptions quiet_readTemplates s _ q]
  show ?thesis
    by (auto simp: n m)
qed

theorem cap_keeps_first_files_witness:
  "length (files capped_report_x) = 2 \<and>
   areaRemainingFiles (set_area_fields (initial_formatObj demo_env capped_options) capped_report_x)
     = Some 1"
proof -
  have c: "0 \<le> opt_maxFilesPerArea capped_options"
    by (simp add: capped_options_def)
  from cap_keeps_first_files[OF demo_scan_capped c,
      of "initial_formatObj demo_env capped_options"]
  show ?thesis
    by (simp add: demo_findFiles_x demo_area_x_def capped_options_def)
qed

theorem totals_are_sums_of_included_witness:
  "totalFileCount (fst (render_report demo_env since_options demo_templates
      [demo_report_x, demo_report_y] scanned_sys)) = 3 \<and>
   totalFileBytes (fst (render_report demo_env since_options demo_templates
      [demo_report_x, demo_report_y] scanned_sys)) = 600"
  using totals_are_sums_of_included[OF demo_findNewFiles,
      of demo_templates
        "fst (render_report demo_env since_options demo_templates
           [demo_report_x, demo_report_y] scanned_sys)"
        "fst (snd (render_report demo_env since_options demo_templates
           [demo_report_x, demo_report_y] scanned_sys))"
        "snd (snd (render_report demo_env since_options demo_templates
           [demo_report_x, demo_report_y] scanned_sys))"]
  by (simp add: demo_report_x_def demo_report_y_def demo_size)

theorem area_section_shows_area_totals_witness:
  "\<exists>before ah entries af after.
     trace (snd (snd (render_report demo_env since_options demo_templates
        [demo_report_x, demo_report_y] scanned_sys))) =
       trace scanned_sys @ before @ ah # entries @ af # after \<and>
     fst (snd (render_report demo_env since_options demo_templates
        [demo_report_x, demo_report_y] scanned_sys)) =
       concat (map (format_output demo_env) (before @ ah # entries @ af # after)) \<and>
     length before = 1 \<and>
     totals_call ''LFAASTAR.ASC'' 3 600 ah \<and>
     list_all2 (entry_call ''LFAENTRY.ASC'' 3 600) [demo_file 1, demo_file 2, demo_file 3] entries \<and>
     totals_call ''LFAAEND.ASC'' 3 600 af"
proof -
  define R where "R = render_report demo_env since_options demo_templates
        [demo_report_x, demo_report_y] scanned_sys"
  have r: "render_report demo_env since_options demo_templates
        [demo_report_x, demo_report_y] scanned_sys = (fst R, fst (snd R), snd (snd R))"
    by (simp add: R_def)
  have f: "files demo_report_x \<noteq> []"
    by (simp add: demo_report_x_def)
  have a: "[demo_report_x, demo_report_y] = [] @ demo_report_x # [demo_report_y]"
    by simp
  have c: "sum_list (map (\<lambda>b. length (files b)) ([]::area_files list)) +
      length [demo_file 1, demo_file 2, demo_file 3] = 3"
    by simp
  have y: "sum_list (map (\<lambda>b. bytes_of (files b)) ([]::area_files list)) +
      bytes_of [demo_file 1, demo_file 2, demo_file 3] = 600"
    by (simp add: demo_size)
  have l: "1 + sum_list (map section_calls ([]::area_files list)) = 1"
    by simp
  have fs: "files demo_report_x = [demo_file 1, demo_file 2, demo_file 3]"
    by (simp add: demo_report_x_def)
  have t: "demo_templates ! 1 = ''LFAASTAR.ASC''" "demo_templates ! 2 = ''LFAENTRY.ASC''"
    "demo_templates ! 3 = ''LFAAEND.ASC''"
    by (simp_all add: demo_templates_def)
  from area_section_shows_area_totals[OF demo_findNewFiles a f r]
  have "\<exists>before ah entries af after.
     trace (snd (snd R)) = trace scanned_sys @ before @ ah # entries @ af # after \<and>
     fst (snd R) = concat (map (format_output demo_env) (before @ ah # entries @ af # after)) \<and>
     length before = 1 \<and>
     totals_call ''LFAASTAR.ASC'' 3 600 ah \<and>
     list_all2 (entry_call ''LFAENTRY.ASC'' 3 600) [demo_file 1, demo_file 2, demo_file 3] entries \<and>
     totals_call ''LFAAEND.ASC'' 3 600 af"
    unfolding fs t l unfolding c y .
  then show ?thesis
    unfolding R_def .
qed

theorem empty_area_leaves_no_trace_witness:
  "render_report demo_env since_options demo_templates [demo_report_x, demo_report_y] scanned_sys =
   render_report demo_env since_options demo_templates [demo_report_x] scanned_sys"
proof -
  have "files demo_report_y = []"
    by (simp add: demo_report_y_def)
  from empty_area_leaves_no_trace[OF this, of demo_env since_options demo_templates
      "[demo_report_x]" "[]" scanned_sys]
  show ?thesis by simp
qed

theorem first_run_sets_checkpoint_and_fails_witness:
  "fst (latestFilesAnnounceEvent demo_env [''a,b''] (demo_sys\<lparr>stats := Map.empty\<rparr>)) = Some not_set_error
   \<and> stats (snd (latestFilesAnnounceEvent demo_env [''a,b''] (demo_sys\<lparr>stats := Map.empty\<rparr>)))
       STAT_KEY_LAST_TS = Some ''T2''
   \<and> message_base (snd (latestFilesAnnounceEvent demo_env [''a,b''] (demo_sys\<lparr>stats := Map.empty\<rparr>))) = []"
  using first_run_sets_checkpoint_and_fails[of "[''a,b'']" demo_env demo_options demo_templates 0
      "demo_sys\<lparr>stats := Map.empty\<rparr>", OF _ demo_loadOptions demo_readTemplates]
  by (auto simp: truthy_def demo_env_def demo_sys_def)

theorem reflow_failure_is_not_fatal_witness:
  "fst (load_files prep_fails_env 0 [1, 2] (0, demo_sys)) = Inr [demo_file 1, demo_file 2]"
proof -
  have l: "load prep_fails_env n = Inr (demo_file n)" for n
    by (simp add: prep_fails_env_def demo_env_def)
  then have "\<forall>i \<in> set [1, 2]. \<exists>f. load prep_fails_env i = Inr f"
    by simp
  from reflow_failure_is_not_fatal[OF this, of 0 0 demo_sys] obtain fs b' st' where
    r: "load_files prep_fails_env 0 [1, 2] (0, demo_sys) = (Inr fs, b', st')" and
    n: "length fs = 2" and
    k: "\<forall>k < 2. \<forall>f. load prep_fails_env ([1, 2] ! k) = Inr f \<longrightarrow>
          \<not> truthy (snd (AnsiPrep prep_fails_env (entry_desc f) (79 - int 0) 0)) \<longrightarrow> fs ! k = f"
    by auto
  have p: "\<not> truthy (snd (AnsiPrep prep_fails_env d c i))" for d c i
    by (simp add: prep_fails_env_def truthy_def)
  from k l p have "fs ! 0 = demo_file 1" "fs ! 1 = demo_file 2"
    by (auto simp: nth_Cons')
  with n have "fs = [demo_file 1, demo_file 2]"
    by (cases fs; cases "tl fs") auto
  with r show ?thesis by simp
qed

theorem early_failure_keeps_checkpoint_witness:
  "snd (latestFilesAnnounceEvent unreadable_env [''a,b''] demo_sys) = demo_sys \<and>
   fst (latestFilesAnnounceEvent unreadable_env [''a,b''] demo_sys) \<noteq> None"
proof -
  have "\<exists>err. fs_readFile unreadable_env (optionsPath unreadable_env [''a,b'']) = Inl err \<and>
          err_code err \<noteq> ''ENOENT''"
    by (simp add: unreadable_env_def)
  then have "\<exists>e. latestFilesAnnounceEvent unreadable_env [''a,b''] demo_sys = (Some e, demo_sys)"
    by (intro early_failure_keeps_checkpoint) blast
  then show ?thesis by auto
qed

theorem one_message_per_destination_witness:
  "fst (buildMessages demo_env [''a,b''] since_options demo_templates [demo_report_x] scanned_sys) = None \<and>
   map msg_areaTag (message_base (snd (buildMessages demo_env [''a,b''] since_options
      demo_templates [demo_report_x] scanned_sys))) = [''a'', ''b''] \<and>
   map message (message_base (snd (buildMessages demo_env [''a,b''] since_options
      demo_templates [demo_report_x] scanned_sys))) =
     [fst (snd (render_report demo_env since_options demo_templates [demo_report_x] scanned_sys)),
      fst (snd (render_report demo_env since_options demo_templates [demo_report_x] scanned_sys))] \<and>
   map subject (message_base (snd (buildMessages demo_env [''a,b''] since_options
      demo_templates [demo_report_x] scanned_sys))) =
     [''New files on {boardName}'', ''New files on {boardName}''] \<and>
   fst (buildMessages b_fails_env [''a,b,c''] since_options demo_templates [demo_report_x] scanned_sys)
     = Some (General ''no area'') \<and>
   map msg_areaTag (message_base (snd (buildMessages b_fails_env [''a,b,c''] since_options
      demo_templates [demo_report_x] scanned_sys))) = [''a'']"
proof -
  have ne: "\<exists>a \<in> set [demo_report_x]. files a \<noteq> []"
    by (simp add: demo_report_x_def)
  have mb: "message_base scanned_sys = []"
    by (simp add: scanned_sys_def)
  have sf: "opt_subjectFormat since_options = ''New files on {boardName}''"
    by (simp add: since_options_def demo_options_def with_defaults_def no_options_def or_str_def
        Let_def)
  define R where "R = render_report demo_env since_options demo_templates [demo_report_x] scanned_sys"
  define mk where "mk = (\<lambda>tag. \<lparr>msg_areaTag = tag, toUserName = opt_to since_options,
      fromUserName = opt_from since_options,
      subject = stringFormat demo_env (opt_subjectFormat since_options) (fst R),
      message = fst (snd R), explicit_encoding = ''cp437''\<rparr>)"
  have r: "render_report demo_env since_options demo_templates [demo_report_x] scanned_sys =
      (fst R, fst (snd R), snd (snd R))"
    by (simp add: R_def)
  have m1: "message_base (snd (snd R)) = []"
    using render_report_events[OF r] mb by simp
  have p: "\<forall>t \<in> set [''a'', ''b'']. persistMessage demo_env (mk t) = None"
    by (simp add: demo_env_def)
  have j: "[''a,b''] ! 0 = join_with '','' [''a'', ''b'']"
    by simp
  have n: "[''a'', ''b''] \<noteq> []"
    by simp
  have c: "\<forall>t \<in> set [''a'', ''b'']. CHR '','' \<notin> set t"
    by simp
  have s1: "stringFormat demo_env t fo = t" for t fo
    by (simp add: demo_env_def)
  note all_ok = one_message_per_destination[OF r ne j n c mk_def, THEN conjunct2, THEN conjunct1,
      THEN mp, OF p]
  have ok: "fst (buildMessages demo_env [''a,b''] since_options demo_templates [demo_report_x]
        scanned_sys) = None"
    "map msg_areaTag (message_base (snd (buildMessages demo_env [''a,b''] since_options
      demo_templates [demo_report_x] scanned_sys))) = [''a'', ''b'']"
    "map message (message_base (snd (buildMessages demo_env [''a,b''] since_options
      demo_templates [demo_report_x] scanned_sys))) = [fst (snd R), fst (snd R)]"
    "map subject (message_base (snd (buildMessages demo_env [''a,b''] since_options
      demo_templates [demo_report_x] scanned_sys))) =
     [''New files on {boardName}'', ''New files on {boardName}'']"
    by (simp_all add: all_ok m1 mk_def s1 sf)
  define Q where "Q = render_report b_fails_env since_options demo_templates [demo_report_x] scanned_sys"
  define mq where "mq = (\<lambda>tag. \<lparr>msg_areaTag = tag, toUserName = opt_to since_options,
      fromUserName = opt_from since_options,
      subject = stringFormat b_fails_env (opt_subjectFormat since_options) (fst Q),
      message = fst (snd Q), explicit_encoding = ''cp437''\<rparr>)"
  have q: "render_report b_fails_env since_options demo_templates [demo_report_x] scanned_sys =
      (fst Q, fst (snd Q), snd (snd Q))"
    by (simp add: Q_def)
  have m2: "message_base (snd (snd Q)) = []"
    using render_report_events[OF q] mb by simp
  have j3: "[''a,b,c''] ! 0 = join_with '','' [''a'', ''b'', ''c'']"
    by simp
  have n3: "[''a'', ''b'', ''c''] \<noteq> []"
    by simp
  have c3: "\<forall>t \<in> set [''a'', ''b'', ''c'']. CHR '','' \<notin> set t"
    by simp
  have f: "[''a'', ''b'', ''c''] = [''a''] @ ''b'' # [''c''] \<and>
      (\<forall>t \<in> set [''a'']. persistMessage b_fails_env (mq t) = None) \<and>
      persistMessage b_fails_env (mq ''b'') = Some (General ''no area'')"
    by (simp add: b_fails_env_def mq_def)
  note stops = one_message_per_destination[OF q ne j3 n3 c3 mq_def, THEN conjunct2, THEN conjunct2,
      THEN spec, THEN spec, THEN spec, THEN spec, THEN mp, OF f]
  have bad: "fst (buildMessages b_fails_env [''a,b,c''] since_options demo_templates
        [demo_report_x] scanned_sys) = Some (General ''no area'')"
    "map msg_areaTag (message_base (snd (buildMessages b_fails_env [''a,b,c''] since_options
      demo_templates [demo_report_x] scanned_sys))) = [''a'']"
    by (simp_all add: stops m2 mq_def)
  from ok bad show ?thesis
    unfolding R_def by (intro conjI)
qed

text \<open>
  Claim C2, as it is written, fails on a cap that is negative and on a cap configured
  as 0. With three new ids and \<^verbatim>\<open>maxFilesPerArea\<close> -1, \<^verbatim>\<open>slice(0, -1)\<close> keeps two
  files and \<^verbatim>\<open>areaRemainingFiles\<close> is 4, where min(N, C) is -1. With
  \<^verbatim>\<open>maxFilesPerArea: 0\<close> in the options file, \<^verbatim>\<open>loadOptions\<close> makes the cap 20 and all
  three files are included, where min(N, C) is 0.
\<close>

theorem cap_keeps_first_files_counterexample:
  "findFiles demo_env ''T1'' (areaTag demo_area_x) = Inr [1, 2, 3] \<and>
   opt_maxFilesPerArea negative_cap_options = - 1 \<and>
   fst (scan_area demo_env negative_cap_options 0 ''T1'' demo_area_x demo_sys)
     = Inr negative_cap_report \<and>
   int (length (files negative_cap_report)) \<noteq> min (int (length [1, 2, 3 :: nat])) (- 1) \<and>
   remainingFiles negative_cap_report = 4 \<and>
   opt_maxFilesPerArea zero_configured_options = 20 \<and>
   fst (scan_area demo_env zero_configured_options 0 ''T1'' demo_area_x demo_sys)
     = Inr demo_report_x \<and>
   int (length (files demo_report_x)) \<noteq> min (int (length [1, 2, 3 :: nat])) 0"
proof -
  have z: "opt_maxFilesPerArea zero_configured_options = 20"
    by (simp add: zero_configured_options_def with_defaults_def no_options_def or_num_def Let_def)
  have n: "opt_maxFilesPerArea negative_cap_options = - 1"
    by (simp add: negative_cap_options_def)
  have "fst (scan_area demo_env negative_cap_options 0 ''T1'' demo_area_x demo_sys)
     = Inr negative_cap_report"
    by (simp add: scan_area_def demo_area_x_def demo_findFiles_x n slice0_def
        demo_load demo_prepDesc demo_size negative_cap_report_def)
  moreover have "fst (scan_area demo_env zero_configured_options 0 ''T1'' demo_area_x demo_sys)
     = Inr demo_report_x"
    by (simp add: scan_area_def demo_area_x_def demo_findFiles_x z slice0_def
        demo_load demo_prepDesc demo_size demo_report_x_def)
  ultimately show ?thesis
    using z n
    by (simp add: demo_findFiles_x demo_area_x_def negative_cap_report_def demo_report_x_def)
qed

text \<open>
  Claim C4, as it is written, fails: the totals do not accumulate entry by entry. On the
  small board, area x has three new files of 100, 200 and 300 bytes. The third call of
  the report (after the header and the area header; the scan has logged eight calls
  before) formats the entry of the first file, of 100 bytes, and is made with a total of
  3 files and 600 bytes, not 1 file and 100 bytes.
\<close>

theorem entry_totals_counterexample:
  "length (trace scanned_sys) = 8 \<and>
   call_totals (trace (snd (snd (render_report demo_env since_options demo_templates
      [demo_report_x, demo_report_y] scanned_sys))) ! 10)
     = Some (''LFAENTRY.ASC'', Some 100, 3, 600) \<and>
   call_totals (trace (snd (snd (render_report demo_env since_options demo_templates
      [demo_report_x, demo_report_y] scanned_sys))) ! 10)
     \<noteq> Some (''LFAENTRY.ASC'', Some 100, 1, 100)"
proof -
  have "call_totals (trace (snd (snd (render_report demo_env since_options demo_templates
      [demo_report_x, demo_report_y] scanned_sys))) ! 10)
     = Some (''LFAENTRY.ASC'', Some 100, 3, 600)"
    by (simp add: render_report_def append_format_eq demo_report_x_def demo_report_y_def
        set_area_fields_def set_file_fields_def initial_formatObj_def demo_size
        demo_templates_def scanned_sys_def nth_append)
  then show ?thesis
    by (simp add: scanned_sys_def)
qed

end
